theory Spec2Isabelle
  imports Main "HOL-Library.Log_Nat"
begin

section \<open>JavaScript numbers\<close>

text \<open>
  Every arithmetic value in \<^verbatim>\<open>src/utils/imageUtils.ts\<close> is a JavaScript \<^verbatim>\<open>number\<close>, an
  IEEE 754 binary64 value. A finite value is kept as the exact rational it denotes; each
  arithmetic operation computes the exact result and rounds it to the nearest binary64 value
  (ties to even), overflowing to an infinity. The sign of zero is not tracked: the only thing
  that could observe it is a division by zero, and every divisor in the code is the literal
  \<^verbatim>\<open>100\<close> or an image's \<^verbatim>\<open>naturalWidth\<close>/\<^verbatim>\<open>naturalHeight\<close>, none of which is a negative zero.
\<close>

datatype number = Fin rat | PInf | NInf | NaN

text \<open>The binary exponent \<open>\<lfloor>log\<^sub>2 \<bar>x\<bar>\<rfloor>\<close> of a non-zero rational.\<close>

definition bexp :: "rat \<Rightarrow> int" where
  "bexp x = (let (p, q) = quotient_of \<bar>x\<bar>; d = bitlen p - bitlen q
             in if 2 powi d \<le> \<bar>x\<bar> then d else d - 1)"

text \<open>Rounding a rational to the nearest integer, ties to the even one.\<close>

definition rne :: "rat \<Rightarrow> int" where
  "rne q = (let f = \<lfloor>q\<rfloor>; r = q - of_int f
            in if r < 1/2 then f else if 1/2 < r then f + 1 else if even f then f else f + 1)"

text \<open>
  Rounding an exact result to binary64: 53 significant bits, the exponent of the last place
  no smaller than \<open>-1074\<close> (subnormal numbers), and overflow from \<open>2\<^sup>1\<^sup>0\<^sup>2\<^sup>4\<close> on.
\<close>

definition rnd :: "rat \<Rightarrow> number" where
  "rnd x = (if x = 0 then Fin 0 else
     let t = max (bexp x) (- 1022) - 52; y = of_int (rne (x / 2 powi t)) * 2 powi t
     in if 2 powi 1024 \<le> \<bar>y\<bar> then (if 0 < x then PInf else NInf) else Fin y)"

text \<open>The operator \<^verbatim>\<open>*\<close>.\<close>

fun num_mult :: "number \<Rightarrow> number \<Rightarrow> number" where
  "num_mult NaN _ = NaN"
| "num_mult _ NaN = NaN"
| "num_mult (Fin a) (Fin b) = rnd (a * b)"
| "num_mult (Fin a) PInf = (if a = 0 then NaN else if 0 < a then PInf else NInf)"
| "num_mult (Fin a) NInf = (if a = 0 then NaN else if 0 < a then NInf else PInf)"
| "num_mult PInf (Fin b) = (if b = 0 then NaN else if 0 < b then PInf else NInf)"
| "num_mult NInf (Fin b) = (if b = 0 then NaN else if 0 < b then NInf else PInf)"
| "num_mult PInf PInf = PInf"
| "num_mult PInf NInf = NInf"
| "num_mult NInf PInf = NInf"
| "num_mult NInf NInf = PInf"

text \<open>The operator \<^verbatim>\<open>/\<close>; a zero divisor is a positive zero.\<close>

fun num_div :: "number \<Rightarrow> number \<Rightarrow> number" where
  "num_div NaN _ = NaN"
| "num_div _ NaN = NaN"
| "num_div (Fin a) (Fin b) =
     (if b = 0 then (if a = 0 then NaN else if 0 < a then PInf else NInf) else rnd (a / b))"
| "num_div (Fin a) PInf = Fin 0"
| "num_div (Fin a) NInf = Fin 0"
| "num_div PInf (Fin b) = (if 0 \<le> b then PInf else NInf)"
| "num_div NInf (Fin b) = (if 0 \<le> b then NInf else PInf)"
| "num_div PInf PInf = NaN"
| "num_div PInf NInf = NaN"
| "num_div NInf PInf = NaN"
| "num_div NInf NInf = NaN"

text \<open>
  \<^verbatim>\<open>Math.round\<close>: the closest integer, a tie going to the one nearer to \<open>+\<infinity>\<close>; infinities and
  \<^verbatim>\<open>NaN\<close> are returned as they are.
\<close>

fun Math_round :: "number \<Rightarrow> number" where
  "Math_round (Fin x) = Fin (of_int \<lfloor>x + 1/2\<rfloor>)"
| "Math_round n = n"

text \<open>The comparison \<^verbatim>\<open>1 <= n\<close> (false for \<^verbatim>\<open>NaN\<close>).\<close>

fun at_least_one :: "number \<Rightarrow> bool" where
  "at_least_one (Fin x) = (1 \<le> x)"
| "at_least_one PInf = True"
| "at_least_one NInf = False"
| "at_least_one NaN = False"

section \<open>Data model (\<^verbatim>\<open>types.ts\<close>)\<close>

datatype ImageFormat = Jpeg | Png | Webp

datatype ResizeMode = Original | Percentage | FixedWidth | FixedHeight

record ProcessingOptions =
  format :: ImageFormat
  quality :: number
  resizeMode :: ResizeMode
  resizeValue :: number
  maintainAspectRatio :: bool

datatype ProcessStatus = Idle | Processing | Completed | Error

record File =
  file_name :: string
  file_type :: string
  file_size :: nat

text \<open>
  An optional field (\<^verbatim>\<open>processedUrl?: string\<close>) is an \<open>option\<close>, \<open>None\<close> standing for
  \<^verbatim>\<open>undefined\<close>. The fields \<^verbatim>\<open>id\<close> and \<^verbatim>\<open>file\<close> are called \<open>item_id\<close> and \<open>item_file\<close>.
\<close>

record ImageItem =
  item_id :: string
  item_file :: File
  previewUrl :: string
  originalSize :: nat
  originalWidth :: nat
  originalHeight :: nat
  status :: ProcessStatus
  processedUrl :: "string option"
  processedFormat :: "ImageFormat option"
  processedSize :: "nat option"
  processedWidth :: "number option"
  processedHeight :: "number option"
  error :: "string option"

text \<open>
  \<^verbatim>\<open>Partial<ImageItem>\<close>: every key may be absent (\<open>None\<close>). A key that is present holds a value
  of the field's type, so for an optional field a present key can hold \<^verbatim>\<open>undefined\<close>
  (\<open>Some None\<close>), as \<^verbatim>\<open>error: undefined\<close> does in the success record of \<^verbatim>\<open>processFile\<close>.
\<close>

record PartialImageItem =
  p_id :: "string option"
  p_file :: "File option"
  p_previewUrl :: "string option"
  p_originalSize :: "nat option"
  p_originalWidth :: "nat option"
  p_originalHeight :: "nat option"
  p_status :: "ProcessStatus option"
  p_processedUrl :: "string option option"
  p_processedFormat :: "ImageFormat option option"
  p_processedSize :: "nat option option"
  p_processedWidth :: "number option option"
  p_processedHeight :: "number option option"
  p_error :: "string option option"

definition emptyPartial :: PartialImageItem where
  "emptyPartial = \<lparr> p_id = None, p_file = None, p_previewUrl = None, p_originalSize = None,
     p_originalWidth = None, p_originalHeight = None, p_status = None, p_processedUrl = None,
     p_processedFormat = None, p_processedSize = None, p_processedWidth = None,
     p_processedHeight = None, p_error = None \<rparr>"

text \<open>The object spread \<^verbatim>\<open>{ ...f, ...result }\<close>: the keys present in \<open>result\<close> overwrite.\<close>

definition spread :: "ImageItem \<Rightarrow> PartialImageItem \<Rightarrow> ImageItem" where
  "spread f r = \<lparr>
     item_id = (case p_id r of None \<Rightarrow> item_id f | Some v \<Rightarrow> v),
     item_file = (case p_file r of None \<Rightarrow> item_file f | Some v \<Rightarrow> v),
     previewUrl = (case p_previewUrl r of None \<Rightarrow> previewUrl f | Some v \<Rightarrow> v),
     originalSize = (case p_originalSize r of None \<Rightarrow> originalSize f | Some v \<Rightarrow> v),
     originalWidth = (case p_originalWidth r of None \<Rightarrow> originalWidth f | Some v \<Rightarrow> v),
     originalHeight = (case p_originalHeight r of None \<Rightarrow> originalHeight f | Some v \<Rightarrow> v),
     status = (case p_status r of None \<Rightarrow> status f | Some v \<Rightarrow> v),
     processedUrl = (case p_processedUrl r of None \<Rightarrow> processedUrl f | Some v \<Rightarrow> v),
     processedFormat = (case p_processedFormat r of None \<Rightarrow> processedFormat f | Some v \<Rightarrow> v),
     processedSize = (case p_processedSize r of None \<Rightarrow> processedSize f | Some v \<Rightarrow> v),
     processedWidth = (case p_processedWidth r of None \<Rightarrow> processedWidth f | Some v \<Rightarrow> v),
     processedHeight = (case p_processedHeight r of None \<Rightarrow> processedHeight f | Some v \<Rightarrow> v),
     error = (case p_error r of None \<Rightarrow> error f | Some v \<Rightarrow> v) \<rparr>"

text \<open>Reading \<^verbatim>\<open>result.processedUrl\<close>: an absent key reads as \<^verbatim>\<open>undefined\<close>.\<close>

definition get_processedUrl :: "PartialImageItem \<Rightarrow> string option" where
  "get_processedUrl r = (case p_processedUrl r of None \<Rightarrow> None | Some v \<Rightarrow> v)"

text \<open>Truthiness of a string that may be \<^verbatim>\<open>undefined\<close>: the empty string is falsy.\<close>

definition truthy :: "string option \<Rightarrow> bool" where
  "truthy s = (case s of None \<Rightarrow> False | Some u \<Rightarrow> u \<noteq> [])"

section \<open>The platform\<close>

text \<open>
  What the browser decides is a parameter of the model: whether the image behind a URL loads
  and with which natural size, whether the canvas gives a 2D context, whether drawing or encoding
  throws, the blob that \<^verbatim>\<open>canvas.toBlob\<close> hands to its callback (\<open>None\<close> for \<^verbatim>\<open>null\<close>) and the
  URL that \<^verbatim>\<open>URL.createObjectURL\<close> makes for a blob.
\<close>

record Image =
  naturalWidth :: nat
  naturalHeight :: nat

record Blob =
  blob_size :: nat
  blob_type :: string

datatype jsError = JSError string

record Env =
  decode :: "string \<Rightarrow> Image option"
  getContext :: "number \<Rightarrow> number \<Rightarrow> bool"
  drawImage :: "Image \<Rightarrow> number \<Rightarrow> number \<Rightarrow> jsError option"
  toBlob :: "Image \<Rightarrow> number \<Rightarrow> number \<Rightarrow> ImageFormat \<Rightarrow> number \<Rightarrow> jsError + Blob option"
  createObjectURL :: "Blob \<Rightarrow> string"

section \<open>The transform pipeline (\<^verbatim>\<open>utils/imageUtils.ts\<close>)\<close>

text \<open>\<^verbatim>\<open>loadImage\<close> rejects with one fixed error when the image does not load.\<close>

definition loadImage :: "Env \<Rightarrow> string \<Rightarrow> jsError + Image" where
  "loadImage env url =
     (case decode env url of
        None \<Rightarrow> Inl (JSError ''Failed to load image'')
      | Some img \<Rightarrow> Inr img)"

text \<open>
  The block of \<^verbatim>\<open>processFile\<close> under the comment \<^verbatim>\<open>Calculate dimensions\<close>, which yields
  \<^verbatim>\<open>targetWidth\<close> and \<^verbatim>\<open>targetHeight\<close> from the natural size of the loaded image.
\<close>

definition resolveDimensions :: "nat \<Rightarrow> nat \<Rightarrow> ProcessingOptions \<Rightarrow> number \<times> number" where
  "resolveDimensions W H options =
     (let targetWidth = Fin (of_nat W); targetHeight = Fin (of_nat H) in
      if resizeMode options = Percentage then
        (let ratio = num_div (resizeValue options) (Fin 100)
         in (Math_round (num_mult targetWidth ratio), Math_round (num_mult targetHeight ratio)))
      else if resizeMode options = FixedWidth then
        (let targetWidth = resizeValue options in
         if maintainAspectRatio options then
           (let ratio = num_div (Fin (of_nat H)) (Fin (of_nat W))
            in (targetWidth, Math_round (num_mult targetWidth ratio)))
         else (targetWidth, targetHeight))
      else if resizeMode options = FixedHeight then
        (let targetHeight = resizeValue options in
         if maintainAspectRatio options then
           (let ratio = num_div (Fin (of_nat W)) (Fin (of_nat H))
            in (Math_round (num_mult targetHeight ratio), targetHeight))
         else (targetWidth, targetHeight))
      else (targetWidth, targetHeight))"

text \<open>The object returned at the end of the \<^verbatim>\<open>try\<close> block.\<close>

definition successRecord ::
  "string \<Rightarrow> ProcessingOptions \<Rightarrow> Blob \<Rightarrow> number \<Rightarrow> number \<Rightarrow> PartialImageItem" where
  "successRecord url options blob targetWidth targetHeight =
     emptyPartial \<lparr>
       p_status := Some Completed,
       p_processedUrl := Some (Some url),
       p_processedFormat := Some (Some (format options)),
       p_processedSize := Some (Some (blob_size blob)),
       p_processedWidth := Some (Some targetWidth),
       p_processedHeight := Some (Some targetHeight),
       p_error := Some None \<rparr>"

text \<open>The body of the \<^verbatim>\<open>try\<close> block: \<open>Inl\<close> is a thrown error, \<open>Inr\<close> the returned record.\<close>

definition processFile_try :: "Env \<Rightarrow> ImageItem \<Rightarrow> ProcessingOptions \<Rightarrow> jsError + PartialImageItem" where
  "processFile_try env item options =
     (case loadImage env (previewUrl item) of
        Inl err \<Rightarrow> Inl err
      | Inr img \<Rightarrow>
          (case resolveDimensions (naturalWidth img) (naturalHeight img) options of
             (targetWidth, targetHeight) \<Rightarrow>
               if \<not> getContext env targetWidth targetHeight
               then Inl (JSError ''Could not get canvas context'')
               else
                 (case drawImage env img targetWidth targetHeight of
                    Some err \<Rightarrow> Inl err
                  | None \<Rightarrow>
                      (case toBlob env img targetWidth targetHeight (format options) (quality options) of
                         Inl err \<Rightarrow> Inl err
                       | Inr None \<Rightarrow> Inl (JSError ''Image encoding failed'')
                       | Inr (Some blob) \<Rightarrow>
                           Inr (successRecord (createObjectURL env blob) options blob
                                  targetWidth targetHeight)))))"

text \<open>\<^verbatim>\<open>err.message || 'Processing failed'\<close>\<close>

fun message_or_default :: "jsError \<Rightarrow> string" where
  "message_or_default (JSError m) = (if m = [] then ''Processing failed'' else m)"

definition failure :: "jsError \<Rightarrow> PartialImageItem" where
  "failure err = emptyPartial \<lparr> p_status := Some Error, p_error := Some (Some (message_or_default err)) \<rparr>"

text \<open>
  \<^verbatim>\<open>processFile\<close>: the \<^verbatim>\<open>try\<close> block with its \<^verbatim>\<open>catch\<close>. The result is the settlement of the
  returned promise: \<open>Inl\<close> a rejection, \<open>Inr\<close> the fulfilment value.
\<close>

definition processFile :: "Env \<Rightarrow> ImageItem \<Rightarrow> ProcessingOptions \<Rightarrow> jsError + PartialImageItem" where
  "processFile env item options =
     (case processFile_try env item options of
        Inl err \<Rightarrow> Inr (failure err)
      | Inr r \<Rightarrow> Inr r)"

section \<open>The batch controller\<close>

text \<open>
  The application component that imports \<^verbatim>\<open>processFile\<close>: its state, \<^verbatim>\<open>handleFilesDropped\<close>,
  \<^verbatim>\<open>handleRemoveFile\<close>, \<^verbatim>\<open>handleClearAll\<close> and \<^verbatim>\<open>handleProcessAll\<close>.
\<close>

text \<open>
  The component state read by the controller, and the object URLs released so far by
  \<^verbatim>\<open>URL.revokeObjectURL\<close>, in the order of the calls.
\<close>

record AppState =
  files :: "ImageItem list"
  isProcessing :: bool
  revoked :: "string list"

text \<open>\<^verbatim>\<open>if (u) URL.revokeObjectURL(u)\<close>\<close>

definition revokeIfSet :: "string option \<Rightarrow> string list" where
  "revokeIfSet u = (case u of None \<Rightarrow> [] | Some s \<Rightarrow> if s = [] then [] else [s])"

text \<open>
  Ingestion (\<^verbatim>\<open>handleFilesDropped\<close>) makes one item per dropped file, given the generated id,
  the file to process, the size of the dropped file and the preview URL: the stored width and
  height are those of the loaded preview, and stay \<open>0\<close> when it does not load.
\<close>

definition newItem :: "Env \<Rightarrow> string \<Rightarrow> File \<Rightarrow> nat \<Rightarrow> string \<Rightarrow> ImageItem" where
  "newItem env newId fileToProcess droppedSize url =
     (let (width, height) =
        (case decode env url of
           Some img \<Rightarrow> (naturalWidth img, naturalHeight img)
         | None \<Rightarrow> (0, 0))
      in \<lparr> item_id = newId, item_file = fileToProcess, previewUrl = url,
           originalSize = droppedSize, originalWidth = width, originalHeight = height,
           status = Idle, processedUrl = None, processedFormat = None, processedSize = None,
           processedWidth = None, processedHeight = None, error = None \<rparr>)"

definition handleRemoveFile :: "string \<Rightarrow> AppState \<Rightarrow> AppState" where
  "handleRemoveFile i st =
     (let prev = files st in
      st \<lparr> files := filter (\<lambda>f. item_id f \<noteq> i) prev,
           revoked := revoked st @
             (case find (\<lambda>f. item_id f = i) prev of
                None \<Rightarrow> []
              | Some fileToRemove \<Rightarrow>
                  previewUrl fileToRemove # revokeIfSet (processedUrl fileToRemove)) \<rparr>)"

definition handleClearAll :: "AppState \<Rightarrow> AppState" where
  "handleClearAll st =
     st \<lparr> files := [],
          revoked := revoked st @ concat (map (\<lambda>f. previewUrl f # revokeIfSet (processedUrl f)) (files st)) \<rparr>"

text \<open>
  What can reach the collection while the controller awaits \<^verbatim>\<open>processFile\<close>: the user removes
  an item, an ingestion in progress appends its new item, or the collection is cleared (the
  page disables that button during a run; the statements below hold with or without it).
\<close>

datatype UserAction = Remove string | ClearAll | Append ImageItem

fun userAction :: "AppState \<Rightarrow> UserAction \<Rightarrow> AppState" where
  "userAction st (Remove i) = handleRemoveFile i st"
| "userAction st ClearAll = handleClearAll st"
| "userAction st (Append item) = st \<lparr> files := files st @ [item] \<rparr>"

text \<open>The selection at the head of \<^verbatim>\<open>handleProcessAll\<close>.\<close>

definition itemsToProcess :: "ImageItem list \<Rightarrow> ImageItem list" where
  "itemsToProcess fs =
     (let sel = filter (\<lambda>f. status f = Idle \<or> status f = Error) fs
      in if length sel = 0 \<and> length fs > 0 then fs else sel)"

text \<open>The first \<^verbatim>\<open>setFiles\<close> of the loop body.\<close>

definition markProcessing :: "ImageItem \<Rightarrow> AppState \<Rightarrow> AppState" where
  "markProcessing item st =
     st \<lparr> files := map (\<lambda>f. if item_id f = item_id item
                             then f \<lparr> status := Processing, error := None \<rparr> else f) (files st) \<rparr>"

text \<open>\<^verbatim>\<open>try { result = await processFile(item, options) } catch (err) { ... }\<close>\<close>

definition awaitProcessFile :: "Env \<Rightarrow> ImageItem \<Rightarrow> ProcessingOptions \<Rightarrow> PartialImageItem" where
  "awaitProcessFile env item options =
     (case processFile env item options of
        Inl err \<Rightarrow> failure err
      | Inr r \<Rightarrow> r)"

text \<open>The second \<^verbatim>\<open>setFiles\<close> of the loop body, which merges the result or drops it.\<close>

definition mergeResult :: "ImageItem \<Rightarrow> PartialImageItem \<Rightarrow> AppState \<Rightarrow> AppState" where
  "mergeResult item result st =
     (let prev = files st; fileExists = list_ex (\<lambda>f. item_id f = item_id item) prev in
      if \<not> fileExists
      then st \<lparr> revoked := revoked st @ revokeIfSet (get_processedUrl result) \<rparr>
      else st \<lparr> files := map (\<lambda>f. if item_id f = item_id item then spread f result else f) prev,
                revoked := revoked st @
                  concat (map (\<lambda>f. if item_id f = item_id item
                                       \<and> truthy (processedUrl f)
                                       \<and> processedUrl f \<noteq> get_processedUrl result
                                     then revokeIfSet (processedUrl f) else []) prev) \<rparr>)"

text \<open>
  One turn of the loop for \<open>item\<close>, with the user actions \<open>acts\<close> that arrive while the
  pipeline is awaited.
\<close>

definition processOne :: "Env \<Rightarrow> ProcessingOptions \<Rightarrow> ImageItem \<Rightarrow> UserAction list \<Rightarrow> AppState \<Rightarrow> AppState" where
  "processOne env options item acts st =
     (let st1 = markProcessing item st;
          result = awaitProcessFile env item options;
          st2 = foldl userAction st1 acts
      in mergeResult item result st2)"

text \<open>
  The loop over the selected items; \<open>sched\<close> gives, turn by turn, the user actions that
  arrive during that turn (none once the list is used up).
\<close>

fun processLoop :: "Env \<Rightarrow> ProcessingOptions \<Rightarrow> ImageItem list \<Rightarrow> UserAction list list \<Rightarrow> AppState \<Rightarrow> AppState" where
  "processLoop env options [] sched st = st"
| "processLoop env options (item # items) sched st =
     processLoop env options items (tl sched)
       (processOne env options item (case sched of [] \<Rightarrow> [] | acts # _ \<Rightarrow> acts) st)"

definition handleProcessAll :: "Env \<Rightarrow> ProcessingOptions \<Rightarrow> UserAction list list \<Rightarrow> AppState \<Rightarrow> AppState" where
  "handleProcessAll env options sched st =
     (processLoop env options (itemsToProcess (files st)) sched (st \<lparr> isProcessing := True \<rparr>))
       \<lparr> isProcessing := False \<rparr>"

section \<open>Consistency of an item's outcome fields with its status\<close>

definition noOutput :: "ImageItem \<Rightarrow> bool" where
  "noOutput f = (processedUrl f = None \<and> processedFormat f = None \<and> processedSize f = None
     \<and> processedWidth f = None \<and> processedHeight f = None)"

definition hasOutput :: "ImageItem \<Rightarrow> bool" where
  "hasOutput f = (processedUrl f \<noteq> None \<and> processedFormat f \<noteq> None \<and> processedSize f \<noteq> None
     \<and> processedWidth f \<noteq> None \<and> processedHeight f \<noteq> None)"

text \<open>
  What the controller keeps true of every item: nothing is set while \<^verbatim>\<open>idle\<close>, no error while
  \<^verbatim>\<open>processing\<close>, all five output fields and no error when \<^verbatim>\<open>completed\<close>, an error message
  when in \<^verbatim>\<open>error\<close>.
\<close>

definition consistent :: "ImageItem \<Rightarrow> bool" where
  "consistent f =
     (case status f of
        Idle \<Rightarrow> noOutput f \<and> error f = None
      | Processing \<Rightarrow> error f = None
      | Completed \<Rightarrow> hasOutput f \<and> error f = None
      | Error \<Rightarrow> error f \<noteq> None)"

text \<open>An appended item is one that ingestion has just made.\<close>

fun appendsFresh :: "UserAction \<Rightarrow> bool" where
  "appendsFresh (Append item) = (status item = Idle \<and> noOutput item \<and> error item = None)"
| "appendsFresh _ = True"

section \<open>Notions used in the statements\<close>

text \<open>
  What a turn of the loop writes for a selected item \<open>f\<close> when nothing else touches the
  collection meanwhile: the item marked as processing, overwritten by its own result.
\<close>

definition outcome :: "Env \<Rightarrow> ProcessingOptions \<Rightarrow> ImageItem \<Rightarrow> ImageItem" where
  "outcome env options f =
     spread (f \<lparr> status := Processing, error := None \<rparr>) (awaitProcessFile env f options)"

text \<open>The action appends an item with the id \<open>i\<close>.\<close>

fun appendsId :: "string \<Rightarrow> UserAction \<Rightarrow> bool" where
  "appendsId i (Append item) = (item_id item = i)"
| "appendsId i _ = False"

text \<open>Both resolved dimensions are at least one pixel.\<close>

definition bothAtLeastOne :: "number \<times> number \<Rightarrow> bool" where
  "bothAtLeastOne dims = (at_least_one (fst dims) \<and> at_least_one (snd dims))"

section \<open>Sample data\<close>

definition ex_file :: File where
  "ex_file = \<lparr> file_name = ''photo.png'', file_type = ''image/png'', file_size = 40000 \<rparr>"

text \<open>
  A platform on which every URL but \<^verbatim>\<open>blob:bad\<close> loads as a 1000 by 500 image and every
  encoding gives a blob of 2048 bytes, and three variants of it: one whose encoder hands
  \<^verbatim>\<open>null\<close> to the callback, one whose encoder hands over an empty blob, one without a 2D
  context.
\<close>

definition ex_env :: Env where
  "ex_env = \<lparr>
     decode = (\<lambda>url. if url = ''blob:bad'' then None
                     else Some \<lparr> naturalWidth = 1000, naturalHeight = 500 \<rparr>),
     getContext = (\<lambda>w h. True),
     drawImage = (\<lambda>img w h. None),
     toBlob = (\<lambda>img w h fmt q. Inr (Some \<lparr> blob_size = 2048, blob_type = ''image/webp'' \<rparr>)),
     createObjectURL = (\<lambda>blob. ''blob:out'') \<rparr>"

definition ex_env_null :: Env where
  "ex_env_null = ex_env \<lparr> toBlob := (\<lambda>img w h fmt q. Inr None) \<rparr>"

definition ex_env_empty :: Env where
  "ex_env_empty = ex_env \<lparr> toBlob := (\<lambda>img w h fmt q. Inr (Some \<lparr> blob_size = 0, blob_type = [] \<rparr>)) \<rparr>"

definition ex_env_nocontext :: Env where
  "ex_env_nocontext = ex_env \<lparr> getContext := (\<lambda>w h. False) \<rparr>"

definition ex_options :: ProcessingOptions where
  "ex_options = \<lparr> format = Webp, quality = rnd (4 / 5), resizeMode = FixedWidth,
     resizeValue = Fin 500, maintainAspectRatio = True \<rparr>"

definition ex_percent50 :: ProcessingOptions where
  "ex_percent50 = \<lparr> format = Jpeg, quality = rnd (4 / 5), resizeMode = Percentage,
     resizeValue = Fin 50, maintainAspectRatio = False \<rparr>"

definition ex_percent70 :: ProcessingOptions where
  "ex_percent70 = \<lparr> format = Jpeg, quality = rnd (4 / 5), resizeMode = Percentage,
     resizeValue = Fin 70, maintainAspectRatio = True \<rparr>"

definition ex_percent10 :: ProcessingOptions where
  "ex_percent10 = \<lparr> format = Jpeg, quality = rnd (4 / 5), resizeMode = Percentage,
     resizeValue = Fin 10, maintainAspectRatio = True \<rparr>"

definition ex_width100 :: ProcessingOptions where
  "ex_width100 = \<lparr> format = Jpeg, quality = rnd (4 / 5), resizeMode = FixedWidth,
     resizeValue = Fin 100, maintainAspectRatio = True \<rparr>"

definition ex_width0 :: ProcessingOptions where
  "ex_width0 = \<lparr> format = Jpeg, quality = rnd (4 / 5), resizeMode = FixedWidth,
     resizeValue = Fin 0, maintainAspectRatio = False \<rparr>"

definition ex_idle :: ImageItem where
  "ex_idle = newItem ex_env ''a'' ex_file 40000 ''blob:a''"

definition ex_done :: ImageItem where
  "ex_done = \<lparr> item_id = ''b'', item_file = ex_file, previewUrl = ''blob:b'',
     originalSize = 40000, originalWidth = 1000, originalHeight = 500, status = Completed,
     processedUrl = Some ''blob:old'', processedFormat = Some Jpeg, processedSize = Some 3000,
     processedWidth = Some (Fin 1000), processedHeight = Some (Fin 500), error = None \<rparr>"

definition ex_failed :: ImageItem where
  "ex_failed = \<lparr> item_id = ''c'', item_file = ex_file, previewUrl = ''blob:bad'',
     originalSize = 40000, originalWidth = 0, originalHeight = 0, status = Error,
     processedUrl = None, processedFormat = None, processedSize = None,
     processedWidth = None, processedHeight = None, error = Some ''Failed to load image'' \<rparr>"

text \<open>A completed item whose preview no longer loads.\<close>

definition ex_stale :: ImageItem where
  "ex_stale = ex_done \<lparr> previewUrl := ''blob:bad'' \<rparr>"

definition ex_state :: AppState where
  "ex_state = \<lparr> files = [ex_idle, ex_done, ex_failed], isProcessing = False, revoked = [] \<rparr>"

definition ex_rerun :: AppState where
  "ex_rerun = \<lparr> files = [ex_stale], isProcessing = False, revoked = [] \<rparr>"

text \<open>An item whose dimensions could not be read at ingestion.\<close>

definition ex_unprobed :: ImageItem where
  "ex_unprobed = ex_idle \<lparr> item_id := ''d'', previewUrl := ''blob:d'',
     originalWidth := 0, originalHeight := 0 \<rparr>"

section \<open>Binary64 rounding: bounds and evaluation\<close>

text \<open>The computed exponent is the binary exponent: \<open>2\<^sup>e \<le> \<bar>x\<bar> < 2\<^sup>e\<^sup>+\<^sup>1\<close>.\<close>

lemma bitlen_bounds_powi:
  assumes "0 < (p::int)"
  shows "(2::rat) powi (bitlen p - 1) \<le> of_int p" "of_int p < (2::rat) powi bitlen p"
proof -
  from bitlen_bounds[OF assms] have a: "2 ^ nat (bitlen p - 1) \<le> p" and b: "p < 2 ^ nat (bitlen p)"
    by auto
  have ge1: "1 \<le> bitlen p" using assms by (auto simp: bitlen_alt_def)
  have "(2::rat) powi (bitlen p - 1) = 2 ^ nat (bitlen p - 1)"
    using ge1 by (simp add: power_int_def)
  also have "\<dots> = of_int (2 ^ nat (bitlen p - 1))" by simp
  also have "\<dots> \<le> of_int p" using a by (simp only: of_int_le_iff)
  finally show "(2::rat) powi (bitlen p - 1) \<le> of_int p" .
  have "(of_int p :: rat) < of_int (2 ^ nat (bitlen p))" using b by (simp only: of_int_less_iff)
  also have "\<dots> = 2 powi bitlen p" using ge1 by (simp add: power_int_def)
  finally show "of_int p < (2::rat) powi bitlen p" .
qed

lemma bexp_bounds:
  assumes "x \<noteq> 0"
  shows "2 powi bexp x \<le> \<bar>x\<bar>" "\<bar>x\<bar> < 2 powi (bexp x + 1)"
proof -
  obtain p q where pq: "quotient_of \<bar>x\<bar> = (p, q)" by (cases "quotient_of \<bar>x\<bar>")
  then have q: "0 < q" by (rule quotient_of_denom_pos)
  have ax: "\<bar>x\<bar> = of_int p / of_int q" using pq by (rule quotient_of_div)
  have "0 < \<bar>x\<bar>" using assms by simp
  with ax q have p: "0 < p" by (simp add: zero_less_divide_iff)
  let ?d = "bitlen p - bitlen q"
  have qr: "(0::rat) < of_int q" using q by simp
  have up: "\<bar>x\<bar> < 2 powi (?d + 1)"
  proof -
    have "of_int p < (2::rat) powi bitlen p" using bitlen_bounds_powi(2)[OF p] .
    also have "\<dots> = 2 powi (?d + 1) * 2 powi (bitlen q - 1)"
      by (simp flip: power_int_add)
    also have "\<dots> \<le> 2 powi (?d + 1) * of_int q"
      using bitlen_bounds_powi(1)[OF q] by (intro mult_left_mono) auto
    finally show ?thesis using qr by (simp add: ax pos_divide_less_eq)
  qed
  have lo: "2 powi (?d - 1) < \<bar>x\<bar>"
  proof -
    have "(2::rat) powi (?d - 1) * of_int q < 2 powi (?d - 1) * 2 powi bitlen q"
      using bitlen_bounds_powi(2)[OF q] by (intro mult_strict_left_mono) auto
    also have "\<dots> = 2 powi (bitlen p - 1)"
      by (simp flip: power_int_add)
    also have "\<dots> \<le> of_int p" using bitlen_bounds_powi(1)[OF p] .
    finally show ?thesis using qr by (simp add: ax pos_less_divide_eq)
  qed
  have b: "bexp x = (if 2 powi ?d \<le> \<bar>x\<bar> then ?d else ?d - 1)"
    by (simp add: bexp_def pq Let_def)
  show "2 powi bexp x \<le> \<bar>x\<bar>" using lo by (auto simp: b)
  show "\<bar>x\<bar> < 2 powi (bexp x + 1)" using up by (auto simp: b)
qed

lemma rne_error: "\<bar>of_int (rne q) - q\<bar> \<le> 1/2"
proof -
  have "of_int \<lfloor>q\<rfloor> \<le> q" "q < of_int \<lfloor>q\<rfloor> + 1" by linarith+
  then show ?thesis
    by (auto simp: rne_def Let_def abs_le_iff)
qed

text \<open>
  One rounding in the normal range changes a value by at most \<open>2\<^sup>-\<^sup>5\<^sup>3\<close> of its size; rounding
  a ratio and then its product with a second factor, by at most three times that.
\<close>

lemma rnd_error:
  assumes lo: "2 powi (- 1022) \<le> \<bar>x\<bar>" and hi: "\<bar>x\<bar> \<le> 2 powi 1000"
  shows "\<exists>y. rnd x = Fin y \<and> \<bar>y - x\<bar> \<le> \<bar>x\<bar> / 2 ^ 53"
proof -
  have x0: "x \<noteq> 0" using lo by auto
  let ?e = "bexp x"
  note b = bexp_bounds[OF x0]
  have "(2::rat) powi (- 1022) < 2 powi (?e + 1)" using lo b(2) by linarith
  have e: "- 1022 \<le> ?e"
  proof (rule ccontr)
    assume "\<not> - 1022 \<le> ?e"
    then have "?e + 1 \<le> - 1022" by simp
    then have "(2::rat) powi (?e + 1) \<le> 2 powi (- 1022)"
      by (intro power_int_increasing) auto
    with \<open>(2::rat) powi (- 1022) < 2 powi (?e + 1)\<close> show False by linarith
  qed
  let ?t = "?e - 52"
  let ?y = "(of_int (rne (x / 2 powi ?t)) * 2 powi ?t :: rat)"
  have tpos: "(0::rat) < 2 powi ?t" by simp
  have "\<bar>?y - x\<bar> = \<bar>of_int (rne (x / 2 powi ?t)) - x / 2 powi ?t\<bar> * 2 powi ?t"
  proof -
    have "?y - x = (of_int (rne (x / 2 powi ?t)) - x / 2 powi ?t) * 2 powi ?t"
      by (simp add: algebra_simps)
    then show ?thesis by (simp add: abs_mult)
  qed
  also have "\<dots> \<le> (1/2) * 2 powi ?t"
    using rne_error[of "x / 2 powi ?t"] by (intro mult_right_mono) auto
  also have "\<dots> = 2 powi ?e / 2 ^ 53"
  proof -
    have "(2::rat) powi ?t = 2 powi ?e / 2 powi 52" by (rule power_int_diff) simp
    then show ?thesis by simp
  qed
  also have "\<dots> \<le> \<bar>x\<bar> / 2 ^ 53" using b(1) by (simp add: divide_right_mono)
  finally have err: "\<bar>?y - x\<bar> \<le> \<bar>x\<bar> / 2 ^ 53" .
  have "\<bar>?y\<bar> \<le> \<bar>x\<bar> + \<bar>?y - x\<bar>" by linarith
  also have "\<dots> \<le> \<bar>x\<bar> + \<bar>x\<bar> / 2 ^ 53" using err by linarith
  also have "\<dots> \<le> 2 * \<bar>x\<bar>" by (simp add: field_simps)
  also have "\<dots> \<le> 2 * 2 powi 1000" using hi by linarith
  also have "\<dots> < 2 powi 1024" by simp
  finally have nov: "\<not> (2::rat) powi 1024 \<le> \<bar>?y\<bar>" by linarith
  have "rnd x = Fin ?y"
    using x0 e nov by (simp add: rnd_def Let_def max_def)
  with err show ?thesis by blast
qed

lemma rnd_twice_error:
  assumes a_lo: "2 powi (- 1000) \<le> \<bar>a\<bar>" and a_hi: "\<bar>a\<bar> \<le> 2 powi 999"
    and x_lo: "2 powi (- 1000) \<le> \<bar>s * a\<bar>" and x_hi: "\<bar>s * a\<bar> \<le> 2 powi 999"
  shows "\<exists>r p. rnd a = Fin r \<and> rnd (s * r) = Fin p \<and> \<bar>p - s * a\<bar> \<le> 3 * \<bar>s * a\<bar> / 2 ^ 53"
proof -
  have "(2::rat) powi (- 1022) \<le> 2 powi (- 1000)" by (intro power_int_increasing) auto
  with a_lo have "2 powi (- 1022) \<le> \<bar>a\<bar>" by linarith
  moreover have "(2::rat) powi 999 \<le> 2 powi 1000" by (intro power_int_increasing) auto
  with a_hi have "\<bar>a\<bar> \<le> 2 powi 1000" by linarith
  ultimately obtain r where r: "rnd a = Fin r" "\<bar>r - a\<bar> \<le> \<bar>a\<bar> / 2 ^ 53"
    using rnd_error[of a] by blast
  let ?x = "s * a"
  have "\<bar>s * r - ?x\<bar> = \<bar>s\<bar> * \<bar>r - a\<bar>"
    by (simp add: abs_mult flip: right_diff_distrib)
  also have "\<dots> \<le> \<bar>s\<bar> * (\<bar>a\<bar> / 2 ^ 53)"
    using r(2) by (intro mult_left_mono) auto
  also have "\<dots> = \<bar>?x\<bar> / 2 ^ 53" by (simp add: abs_mult)
  finally have d1: "\<bar>s * r - ?x\<bar> \<le> \<bar>?x\<bar> / 2 ^ 53" .
  have half: "\<bar>?x\<bar> / 2 ^ 53 \<le> \<bar>?x\<bar> / 2" by (simp add: field_simps)
  have sr_lo: "\<bar>?x\<bar> / 2 \<le> \<bar>s * r\<bar>" using d1 half by linarith
  have sr_hi: "\<bar>s * r\<bar> \<le> 2 * \<bar>?x\<bar>" using d1 half by linarith
  have "(2::rat) powi (- 1022) \<le> 2 powi (- 1000) / 2" by simp
  also have "\<dots> \<le> \<bar>?x\<bar> / 2" using x_lo by simp
  finally have l2: "2 powi (- 1022) \<le> \<bar>s * r\<bar>" using sr_lo by linarith
  have "2 * \<bar>?x\<bar> \<le> 2 * 2 powi 999" using x_hi by simp
  also have "\<dots> = 2 powi 1000" by simp
  finally have h2: "\<bar>s * r\<bar> \<le> 2 powi 1000" using sr_hi by linarith
  from rnd_error[OF l2 h2] obtain p where p: "rnd (s * r) = Fin p" "\<bar>p - s * r\<bar> \<le> \<bar>s * r\<bar> / 2 ^ 53"
    by blast
  have "\<bar>s * r\<bar> / 2 ^ 53 \<le> 2 * \<bar>?x\<bar> / 2 ^ 53"
    using sr_hi by (simp add: divide_right_mono)
  with p(2) have d2: "\<bar>p - s * r\<bar> \<le> 2 * \<bar>?x\<bar> / 2 ^ 53" by linarith
  have "\<bar>p - ?x\<bar> \<le> \<bar>p - s * r\<bar> + \<bar>s * r - ?x\<bar>" by linarith
  also have "\<dots> \<le> 2 * \<bar>?x\<bar> / 2 ^ 53 + \<bar>?x\<bar> / 2 ^ 53" using d1 d2 by linarith
  also have "\<dots> = 3 * \<bar>?x\<bar> / 2 ^ 53" by simp
  finally show ?thesis using r(1) p(1) by blast
qed

text \<open>
  A value closer than \<open>1 / (2 * d)\<close> to the fraction \<open>n / d\<close> rounds like it, unless the
  fraction is exactly halfway between two integers.
\<close>

lemma floor_half_close:
  fixes y :: rat and n d :: int
  assumes d: "0 < d" and close: "\<bar>y - of_int n / of_int d\<bar> < 1 / (2 * of_int d)"
  shows "if (2 * n + d) mod (2 * d) = 0
         then \<lfloor>y + 1/2\<rfloor> = (2 * n + d) div (2 * d) - 1 \<or> \<lfloor>y + 1/2\<rfloor> = (2 * n + d) div (2 * d)
         else \<lfloor>y + 1/2\<rfloor> = (2 * n + d) div (2 * d)"
proof -
  let ?k = "(2 * n + d) div (2 * d)" and ?m = "(2 * n + d) mod (2 * d)"
  let ?D = "of_int d :: rat"
  have D: "0 < ?D" using d by simp
  have m: "0 \<le> ?m" "?m < 2 * d" using d by auto
  have "(of_int (2 * n + d) :: rat) = of_int (2 * d * ?k + ?m)"
    by (simp only: mult_div_mod_eq)
  then have eq: "2 * of_int n + ?D = 2 * ?D * of_int ?k + of_int ?m"
    by (simp only: of_int_add of_int_mult of_int_numeral)
  have scaled: "\<bar>2 * ?D * y - 2 * of_int n\<bar> < 1"
  proof -
    have "2 * ?D * y - 2 * of_int n = (y - of_int n / ?D) * (2 * ?D)"
      using D by (simp add: field_simps)
    then have "\<bar>2 * ?D * y - 2 * of_int n\<bar> = \<bar>y - of_int n / ?D\<bar> * (2 * ?D)"
      using D by (simp add: abs_mult)
    also have "\<dots> < 1 / (2 * ?D) * (2 * ?D)"
      using close D by (intro mult_strict_right_mono) auto
    also have "\<dots> = 1" using D by simp
    finally show ?thesis .
  qed
  define z where "z = 2 * ?D * (y + 1/2 - of_int ?k)"
  have z: "of_int ?m - 1 < z" "z < of_int ?m + 1"
    using scaled eq by (simp_all add: z_def algebra_simps abs_less_iff)
  have fl: "\<lfloor>y + 1/2\<rfloor> = j" if "2 * ?D * of_int (j - ?k) \<le> z" "z < 2 * ?D * of_int (j - ?k) + 2 * ?D" for j
  proof -
    have "2 * ?D * of_int j \<le> 2 * ?D * (y + 1/2)" using that(1) by (simp add: z_def algebra_simps)
    then have a: "of_int j \<le> y + 1/2" using D by simp
    have "2 * ?D * (y + 1/2) < 2 * ?D * (of_int j + 1)" using that(2) by (simp add: z_def algebra_simps)
    then have b: "y + 1/2 < of_int j + 1" using D by simp
    from a b show ?thesis by (simp add: floor_eq_iff)
  qed
  show ?thesis
  proof (cases "?m = 0")
    case True
    have "\<lfloor>y + 1/2\<rfloor> = ?k - 1 \<or> \<lfloor>y + 1/2\<rfloor> = ?k"
    proof (cases "0 \<le> z")
      case True
      have "\<lfloor>y + 1/2\<rfloor> = ?k"
      proof (rule fl)
        show "2 * ?D * of_int (?k - ?k) \<le> z" using True by simp
        have "(1::rat) \<le> 2 * ?D" using d by (simp add: of_int_le_iff[of 1 "2 * d" for d, symmetric])
        then show "z < 2 * ?D * of_int (?k - ?k) + 2 * ?D" using z(2) \<open>?m = 0\<close> by simp
      qed
      then show ?thesis ..
    next
      case False
      have "\<lfloor>y + 1/2\<rfloor> = ?k - 1"
      proof (rule fl)
        have "(1::rat) \<le> 2 * ?D" using d by (simp add: of_int_le_iff[of 1 "2 * d" for d, symmetric])
        then show "2 * ?D * of_int (?k - 1 - ?k) \<le> z" using z(1) \<open>?m = 0\<close> by simp
        show "z < 2 * ?D * of_int (?k - 1 - ?k) + 2 * ?D" using False by simp
      qed
      then show ?thesis ..
    qed
    with True show ?thesis by simp
  next
    case False
    with m have m1: "1 \<le> ?m" "?m + 1 \<le> 2 * d" by auto
    have "\<lfloor>y + 1/2\<rfloor> = ?k"
    proof (rule fl)
      have "(0::rat) \<le> of_int ?m - 1" using m1(1) by simp
      then show "2 * ?D * of_int (?k - ?k) \<le> z" using z(1) by simp
      have "(of_int (?m + 1) :: rat) \<le> of_int (2 * d)" using m1(2) by (simp only: of_int_le_iff)
      then show "z < 2 * ?D * of_int (?k - ?k) + 2 * ?D" using z(2) by simp
    qed
    with False show ?thesis by simp
  qed
qed

lemma nearest_floor:
  fixes n d :: int
  assumes "0 < d"
  shows "(2 * n + d) div (2 * d) = \<lfloor>(of_int n / of_int d :: rat) + 1/2\<rfloor>"
proof -
  have "(of_int n / of_int d :: rat) + 1/2 = of_int (2 * n + d) / of_int (2 * d)"
    using assms by (simp add: field_simps)
  then show ?thesis by (simp only: floor_divide_of_int_eq)
qed

lemma halfway_iff:
  fixes n d :: int
  assumes "0 < d"
  shows "(2 * n + d) mod (2 * d) = 0 \<longleftrightarrow> (2 * n) mod (2 * d) = d"
proof
  assume "(2 * n + d) mod (2 * d) = 0"
  then obtain j where j: "2 * n + d = 2 * d * j" by (auto simp: mod_eq_0_iff_dvd)
  then have "2 * n = (j - 1) * (2 * d) + d" by (simp add: algebra_simps)
  then have "(2 * n) mod (2 * d) = d mod (2 * d)" by (simp only: mod_mult_self3)
  with assms show "(2 * n) mod (2 * d) = d" by simp
next
  assume a: "(2 * n) mod (2 * d) = d"
  have "(2 * n + d) mod (2 * d) = ((2 * n) mod (2 * d) + d) mod (2 * d)"
    by (rule mod_add_left_eq[symmetric])
  also have "\<dots> = (d + d) mod (2 * d)" by (simp only: a)
  also have "\<dots> = 0" by simp
  finally show "(2 * n + d) mod (2 * d) = 0" .
qed

text \<open>
  \<^verbatim>\<open>Math.round(s * ratio)\<close> for a ratio that was itself rounded, where the exact product is
  the fraction \<open>n / d\<close> of moderate size.
\<close>

lemma rounded_product:
  fixes s a :: rat and n d :: int
  assumes d: "0 < d" "d \<le> 2 ^ 32" and n: "\<bar>n\<bar> \<le> 2 ^ 50"
    and x: "s * a = of_int n / of_int d"
    and a: "a = 0 \<or> (2 powi (- 64) \<le> \<bar>a\<bar> \<and> \<bar>a\<bar> \<le> 2 powi 64)"
  shows "\<exists>k. Math_round (num_mult (Fin s) (rnd a)) = Fin (of_int k)
           \<and> (if (2 * n + d) mod (2 * d) = 0
               then k = \<lfloor>(of_int n / of_int d :: rat) + 1/2\<rfloor> - 1 \<or> k = \<lfloor>(of_int n / of_int d :: rat) + 1/2\<rfloor>
               else k = \<lfloor>(of_int n / of_int d :: rat) + 1/2\<rfloor>)"
proof -
  let ?D = "of_int d :: rat"
  have D: "0 < ?D" using d by simp
  have p_case: ?thesis if p: "num_mult (Fin s) (rnd a) = Fin p" "\<bar>p - of_int n / ?D\<bar> < 1 / (2 * ?D)" for p
  proof -
    from floor_half_close[OF d(1) p(2)] show ?thesis
      unfolding nearest_floor[OF d(1)] by (simp add: p(1))
  qed
  show ?thesis
  proof (cases "n = 0")
    case True
    with x have sa: "s * a = 0" by simp
    have "\<exists>r. rnd a = Fin r \<and> s * r = 0"
    proof (cases "a = 0")
      case True
      then show ?thesis by (simp add: rnd_def)
    next
      case False
      with sa have s0: "s = 0" by simp
      from False a have "2 powi (- 64) \<le> \<bar>a\<bar>" "\<bar>a\<bar> \<le> 2 powi 64" by auto
      moreover have "(2::rat) powi (- 1022) \<le> 2 powi (- 64)" "(2::rat) powi 64 \<le> 2 powi 1000"
        by (intro power_int_increasing; simp)+
      ultimately have "2 powi (- 1022) \<le> \<bar>a\<bar>" "\<bar>a\<bar> \<le> 2 powi 1000" by linarith+
      from rnd_error[OF this] s0 show ?thesis by auto
    qed
    then obtain r where "rnd a = Fin r" "s * r = 0" by blast
    then have "num_mult (Fin s) (rnd a) = Fin 0" by (simp add: rnd_def)
    moreover have "\<bar>(0::rat) - of_int n / ?D\<bar> < 1 / (2 * ?D)" using True D by simp
    ultimately show ?thesis by (rule p_case)
  next
    case False
    then have n1: "1 \<le> \<bar>n\<bar>" by simp
    have absx: "\<bar>s * a\<bar> = of_int \<bar>n\<bar> / ?D" using D by (simp add: x)
    from False x D have "s * a \<noteq> 0" by simp
    then have "a \<noteq> 0" by auto
    with a have ar: "2 powi (- 64) \<le> \<bar>a\<bar>" "\<bar>a\<bar> \<le> 2 powi 64" by auto
    have "(2::rat) powi (- 1000) \<le> 2 powi (- 64)" "(2::rat) powi 64 \<le> 2 powi 999"
      by (intro power_int_increasing; simp)+
    with ar have a1: "2 powi (- 1000) \<le> \<bar>a\<bar>" "\<bar>a\<bar> \<le> 2 powi 999" by linarith+
    have Dle: "?D \<le> 2 ^ 32" using d(2) by (simp add: of_int_le_iff[of d "2 ^ 32", where ?'a = rat, simplified])
    have nle: "(of_int \<bar>n\<bar> :: rat) \<le> 2 ^ 50" using n by (simp add: of_int_le_iff[of "\<bar>n\<bar>" "2 ^ 50", where ?'a = rat, simplified])
    have nge: "(1::rat) \<le> of_int \<bar>n\<bar>" using n1 by (simp add: of_int_le_iff[of 1 "\<bar>n\<bar>", where ?'a = rat, simplified])
    have "(2::rat) powi (- 1000) \<le> 2 powi (- 32)" by (intro power_int_increasing; simp)
    also have "\<dots> = 1 / 2 ^ 32" by (simp add: power_int_minus field_simps)
    also have "\<dots> \<le> 1 / ?D" using D Dle by (simp add: field_simps)
    also have "\<dots> \<le> of_int \<bar>n\<bar> / ?D" using nge D by (simp add: divide_right_mono)
    finally have x1: "2 powi (- 1000) \<le> \<bar>s * a\<bar>" by (simp only: absx)
    have "of_int \<bar>n\<bar> / ?D \<le> of_int \<bar>n\<bar> / 1" using D nge d(1)
      by (intro divide_left_mono) (auto simp: of_int_le_iff[of 1 d, where ?'a = rat, simplified])
    also have "\<dots> \<le> 2 ^ 50" using nle by simp
    also have "\<dots> \<le> (2::rat) powi 999" by simp
    finally have x2: "\<bar>s * a\<bar> \<le> 2 powi 999" by (simp only: absx)
    from rnd_twice_error[OF a1 x1 x2] obtain r p where
      rp: "rnd a = Fin r" "rnd (s * r) = Fin p" "\<bar>p - s * a\<bar> \<le> 3 * \<bar>s * a\<bar> / 2 ^ 53"
      by blast
    have "3 * \<bar>s * a\<bar> / 2 ^ 53 = 3 * of_int \<bar>n\<bar> / (2 ^ 53 * ?D)" by (simp add: absx)
    also have "\<dots> \<le> 3 * 2 ^ 50 / (2 ^ 53 * ?D)"
      using nle D by (intro divide_right_mono) auto
    also have "\<dots> < 1 / (2 * ?D)" using D by (simp add: field_simps)
    finally have "\<bar>p - of_int n / ?D\<bar> < 1 / (2 * ?D)" using rp(3) by (simp add: x)
    moreover have "num_mult (Fin s) (rnd a) = Fin p" by (simp add: rp)
    ultimately show ?thesis by (intro p_case)
  qed
qed

lemma rounded_product_threshold:
  fixes s a :: rat and n d :: int
  assumes d: "0 < d" "d \<le> 2 ^ 32" and n: "\<bar>n\<bar> \<le> 2 ^ 50"
    and x: "s * a = of_int n / of_int d"
    and a: "a = 0 \<or> (2 powi (- 64) \<le> \<bar>a\<bar> \<and> \<bar>a\<bar> \<le> 2 powi 64)"
  shows "\<exists>k. Math_round (num_mult (Fin s) (rnd a)) = Fin (of_int k)
           \<and> (if (2 * n + d) mod (2 * d) = 0
               then k = \<lfloor>(of_int n / of_int d :: rat) + 1/2\<rfloor> - 1 \<or> k = \<lfloor>(of_int n / of_int d :: rat) + 1/2\<rfloor>
               else k = \<lfloor>(of_int n / of_int d :: rat) + 1/2\<rfloor>)
           \<and> (d < 2 * n \<longrightarrow> 1 \<le> k) \<and> (2 * n < d \<longrightarrow> k \<le> 0)"
proof -
  let ?R = "(2 * n + d) div (2 * d)"
  from rounded_product[OF assms] obtain k where
    k: "Math_round (num_mult (Fin s) (rnd a)) = Fin (of_int k)"
       "if (2 * n + d) mod (2 * d) = 0 then k = ?R - 1 \<or> k = ?R else k = ?R"
    unfolding nearest_floor[OF d(1), symmetric] by blast
  have "1 \<le> k" if "d < 2 * n"
  proof -
    from that have "2 * d \<le> 2 * n + d" by simp
    then have "0 < ?R" using d(1) by (simp add: pos_imp_zdiv_pos_iff)
    then have R1: "1 \<le> ?R" by simp
    show ?thesis
    proof (cases "(2 * n + d) mod (2 * d) = 0")
      case True
      then have "2 * n + d = 2 * d * ?R" by (simp add: mod_eq_0_iff_dvd)
      with that have "2 * d * 1 < 2 * d * ?R" by simp
      then have "1 < ?R" using d(1) by (simp only: mult_less_cancel_left_pos[of "2 * d"])
      with k(2) True show ?thesis by auto
    next
      case False
      with k(2) R1 show ?thesis by simp
    qed
  qed
  moreover have "k \<le> 0" if "2 * n < d"
  proof -
    from that have "2 * n + d < 2 * d" by simp
    then have "\<not> 0 < ?R" using d(1) by (simp add: pos_imp_zdiv_pos_iff)
    then have "?R \<le> 0" by simp
    with k(2) show ?thesis by (auto split: if_splits)
  qed
  ultimately show ?thesis
    using k unfolding nearest_floor[OF d(1), symmetric] by blast
qed

lemma pow2_bounds_small:
  "(2::rat) powi (- 64) \<le> 1 / 100" "(2::rat) ^ 18 / 100 \<le> 2 powi 64"
  "(2::rat) powi (- 64) \<le> 1 / 2 ^ 32" "(2::rat) ^ 32 \<le> 2 powi 64"
  by (simp_all add: power_int_minus field_simps)

lemma percentage_axis:
  fixes A :: nat and v :: int
  assumes A: "A < 2 ^ 32" and v: "\<bar>v\<bar> \<le> 2 ^ 18"
  shows "\<exists>k. Math_round (num_mult (Fin (of_nat A)) (num_div (Fin (of_int v)) (Fin 100))) = Fin (of_int k)
           \<and> (if (int A * v) mod 100 = 50
               then k = \<lfloor>(of_int (int A * v) / 100 :: rat) + 1/2\<rfloor> - 1
                    \<or> k = \<lfloor>(of_int (int A * v) / 100 :: rat) + 1/2\<rfloor>
               else k = \<lfloor>(of_int (int A * v) / 100 :: rat) + 1/2\<rfloor>)
           \<and> (50 < int A * v \<longrightarrow> 1 \<le> k) \<and> (int A * v < 50 \<longrightarrow> k \<le> 0)"
proof -
  let ?n = "int A * v" and ?a = "(of_int v / 100 :: rat)" and ?s = "(of_nat A :: rat)"
  have d: "(0::int) < 100" "(100::int) \<le> 2 ^ 32" by simp_all
  have "\<bar>?n\<bar> = int A * \<bar>v\<bar>" by (simp add: abs_mult)
  also have "\<dots> \<le> 2 ^ 32 * 2 ^ 18"
    using A v by (intro mult_mono) auto
  finally have n: "\<bar>?n\<bar> \<le> 2 ^ 50" by simp
  have x: "?s * ?a = of_int ?n / of_int 100" by simp
  have a: "?a = 0 \<or> (2 powi (- 64) \<le> \<bar>?a\<bar> \<and> \<bar>?a\<bar> \<le> 2 powi 64)"
  proof (cases "v = 0")
    case True
    then show ?thesis by simp
  next
    case False
    then have "1 \<le> \<bar>v\<bar>" by simp
    then have "(1::rat) \<le> of_int \<bar>v\<bar>" by (simp only: of_int_1_le_iff)
    moreover have "(of_int \<bar>v\<bar> :: rat) \<le> of_int (2 ^ 18)" using v by (simp only: of_int_le_iff)
    ultimately have "1 / 100 \<le> \<bar>?a\<bar>" "\<bar>?a\<bar> \<le> 2 ^ 18 / 100" by simp_all
    with pow2_bounds_small(1,2) show ?thesis by linarith
  qed
  have div: "num_div (Fin (of_int v)) (Fin 100) = rnd ?a" by simp
  have tie: "(2 * ?n + 100) mod (2 * 100) = 0 \<longleftrightarrow> ?n mod 100 = 50"
    unfolding halfway_iff[OF d(1)] by (simp only: mod_mult_mult1) simp
  have thr: "(100 < 2 * ?n) = (50 < ?n)" "(2 * ?n < 100) = (?n < 50)" by linarith+
  from rounded_product_threshold[OF d n x a]
  show ?thesis
    unfolding div tie thr of_int_numeral .
qed

lemma aspect_axis:
  fixes A B :: nat and v :: int
  assumes A: "0 < A" "A < 2 ^ 32" and B: "0 < B" "B < 2 ^ 32" and v: "\<bar>v\<bar> \<le> 2 ^ 18"
  shows "\<exists>k. Math_round (num_mult (Fin (of_int v)) (num_div (Fin (of_nat A)) (Fin (of_nat B)))) = Fin (of_int k)
           \<and> (if (2 * (v * int A)) mod (2 * int B) = int B
               then k = \<lfloor>(of_int (v * int A) / of_int (int B) :: rat) + 1/2\<rfloor> - 1
                    \<or> k = \<lfloor>(of_int (v * int A) / of_int (int B) :: rat) + 1/2\<rfloor>
               else k = \<lfloor>(of_int (v * int A) / of_int (int B) :: rat) + 1/2\<rfloor>)
           \<and> (int B < 2 * (v * int A) \<longrightarrow> 1 \<le> k) \<and> (2 * (v * int A) < int B \<longrightarrow> k \<le> 0)"
proof -
  let ?n = "v * int A" and ?d = "int B" and ?a = "(of_nat A / of_nat B :: rat)" and ?s = "(of_int v :: rat)"
  have d: "0 < ?d" "?d \<le> 2 ^ 32" using B by simp_all
  have "\<bar>?n\<bar> = \<bar>v\<bar> * int A" by (simp add: abs_mult)
  also have "\<dots> \<le> 2 ^ 18 * 2 ^ 32"
    using A v by (intro mult_mono) auto
  finally have n: "\<bar>?n\<bar> \<le> 2 ^ 50" by simp
  have x: "?s * ?a = of_int ?n / of_int ?d" by simp
  have Ar: "(1::rat) \<le> of_nat A" "(of_nat A :: rat) \<le> 2 ^ 32"
    using A by (simp_all add: of_nat_le_iff[of A "2 ^ 32", where ?'a = rat, simplified] Suc_le_eq
        of_nat_le_iff[of 1 A, where ?'a = rat, simplified])
  have Br: "(1::rat) \<le> of_nat B" "(of_nat B :: rat) \<le> 2 ^ 32"
    using B by (simp_all add: of_nat_le_iff[of B "2 ^ 32", where ?'a = rat, simplified] Suc_le_eq
        of_nat_le_iff[of 1 B, where ?'a = rat, simplified])
  have "1 / 2 ^ 32 \<le> 1 / (of_nat B :: rat)" using Br by (simp add: field_simps)
  also have "\<dots> \<le> ?a" using Ar Br by (simp add: divide_right_mono)
  finally have alo: "1 / 2 ^ 32 \<le> ?a" .
  have "?a \<le> of_nat A / 1" using Ar Br by (intro divide_left_mono) auto
  with Ar have ahi: "?a \<le> 2 ^ 32" by simp
  have "0 \<le> ?a" by simp
  then have "\<bar>?a\<bar> = ?a" by (rule abs_of_nonneg)
  with alo ahi pow2_bounds_small(3,4)
  have "2 powi (- 64) \<le> \<bar>?a\<bar> \<and> \<bar>?a\<bar> \<le> 2 powi 64" by linarith
  then have a: "?a = 0 \<or> (2 powi (- 64) \<le> \<bar>?a\<bar> \<and> \<bar>?a\<bar> \<le> 2 powi 64)" ..
  have div: "num_div (Fin (of_nat A)) (Fin (of_nat B)) = rnd ?a" using B by simp
  from rounded_product_threshold[OF d n x a]
  show ?thesis
    unfolding div halfway_iff[OF d(1)] .
qed

text \<open>Evaluating a rounding from its exponent and its integer significand.\<close>

lemma bexp_unique:
  assumes "2 powi e \<le> \<bar>x\<bar>" "\<bar>x\<bar> < 2 powi (e + 1)"
  shows "bexp x = e"
proof -
  have "(0::rat) < (2::rat) powi e" by simp
  with assms(1) have "0 < \<bar>x\<bar>" by linarith
  then have x0: "x \<noteq> 0" by simp
  note b = bexp_bounds[OF x0]
  have "\<not> bexp x < e"
  proof
    assume "bexp x < e"
    then have "(2::rat) powi (bexp x + 1) \<le> 2 powi e" by (intro power_int_increasing) auto
    with assms(1) b(2) show False by linarith
  qed
  moreover have "\<not> e < bexp x"
  proof
    assume "e < bexp x"
    then have "(2::rat) powi (e + 1) \<le> 2 powi bexp x" by (intro power_int_increasing) auto
    with assms(2) b(1) show False by linarith
  qed
  ultimately show ?thesis by simp
qed

lemma rne_eval:
  assumes "\<bar>of_int m - q\<bar> < 1/2"
  shows "rne q = m"
proof -
  have f: "of_int \<lfloor>q\<rfloor> \<le> q" "q < of_int \<lfloor>q\<rfloor> + 1" by linarith+
  from assms have m: "of_int m - 1/2 < q" "q < of_int m + 1/2" by linarith+
  have "(of_int m :: rat) < of_int \<lfloor>q\<rfloor> + 2" using f m by linarith
  then have "(of_int m :: rat) < of_int (\<lfloor>q\<rfloor> + 2)" by simp
  then have u: "m < \<lfloor>q\<rfloor> + 2" by (simp only: of_int_less_iff)
  have "(of_int \<lfloor>q\<rfloor> :: rat) < of_int m + 1" using f m by linarith
  then have "(of_int \<lfloor>q\<rfloor> :: rat) < of_int (m + 1)" by simp
  then have l: "\<lfloor>q\<rfloor> < m + 1" by (simp only: of_int_less_iff)
  from u l have c: "m = \<lfloor>q\<rfloor> \<or> m = \<lfloor>q\<rfloor> + 1" by linarith
  then show ?thesis
  proof
    assume e: "m = \<lfloor>q\<rfloor>"
    with m(2) have "q - of_int \<lfloor>q\<rfloor> < 1/2" by simp
    then show ?thesis by (simp add: rne_def Let_def e)
  next
    assume e: "m = \<lfloor>q\<rfloor> + 1"
    with m(1) have "1/2 < q - of_int \<lfloor>q\<rfloor>" by simp
    then show ?thesis by (simp add: rne_def Let_def e)
  qed
qed

lemma rnd_eval:
  assumes "2 powi e \<le> \<bar>x\<bar>" "\<bar>x\<bar> < 2 powi (e + 1)" "- 1022 \<le> e"
    and "\<bar>of_int m - x / 2 powi (e - 52)\<bar> < 1/2"
    and "\<bar>of_int m * 2 powi (e - 52)\<bar> < (2::rat) powi 1024"
  shows "rnd x = Fin (of_int m * 2 powi (e - 52))"
proof -
  have "(0::rat) < (2::rat) powi e" by simp
  with assms(1) have "0 < \<bar>x\<bar>" by linarith
  then have x0: "x \<noteq> 0" by simp
  have b: "bexp x = e" using assms(1,2) by (rule bexp_unique)
  have r: "rne (x / 2 powi (e - 52)) = m" using assms(4) by (rule rne_eval)
  show ?thesis
    using x0 assms(3,5) by (simp add: rnd_def Let_def b r max_def)
qed

lemma rnd_7_10: "rnd (7 / 10) = Fin (3152519739159347 / 4503599627370496)"
  using rnd_eval[of "- 1" "7 / 10" 6305039478318694] by (simp add: power_int_minus)

lemma rnd_45_7_10:
  "rnd (141863388262170615 / 4503599627370496) = Fin (8866461766385663 / 281474976710656)"
  using rnd_eval[of 4 "141863388262170615 / 4503599627370496" 8866461766385663]
  by (simp add: power_int_minus)

lemma percent70_of_45: "resolveDimensions 45 45 ex_percent70 = (Fin 31, Fin 31)"
  by (simp add: resolveDimensions_def ex_percent70_def rnd_7_10 rnd_45_7_10 floor_eq_iff)

lemma rnd_3024_640: "rnd (189 / 40) = Fin (2659938529915699 / 562949953421312)"
  using rnd_eval[of 2 "189 / 40" 5319877059831398] by (simp add: power_int_minus)

lemma rnd_100_3024_640:
  "rnd (66498463247892475 / 140737488355328) = Fin (8312307905986559 / 17592186044416)"
  using rnd_eval[of 8 "66498463247892475 / 140737488355328" 8312307905986559]
  by (simp add: power_int_minus)

lemma width100_of_640_3024: "resolveDimensions 640 3024 ex_width100 = (Fin 100, Fin 472)"
  by (simp add: resolveDimensions_def ex_width100_def rnd_3024_640 rnd_100_3024_640 floor_eq_iff)

lemma rnd_1_10: "rnd (1 / 10) = Fin (3602879701896397 / 36028797018963968)"
  using rnd_eval[of "- 4" "1 / 10" 7205759403792794] by (simp add: power_int_minus)

lemma rnd_4_1_10:
  "rnd (3602879701896397 / 9007199254740992) = Fin (3602879701896397 / 9007199254740992)"
  using rnd_eval[of "- 2" "3602879701896397 / 9007199254740992" 7205759403792794]
  by (simp add: power_int_minus)

lemma percent10_of_4: "resolveDimensions 4 4 ex_percent10 = (Fin 0, Fin 0)"
  by (simp add: resolveDimensions_def ex_percent10_def rnd_1_10 rnd_4_1_10 floor_eq_iff)

lemma width0_of_800_600: "resolveDimensions 800 600 ex_width0 = (Fin 0, Fin 600)"
  by (simp add: resolveDimensions_def ex_width0_def)

section \<open>Facts about the pipeline and the controller\<close>

lemma failure_fields:
  "p_status (failure err) = Some Error"
  "p_error (failure err) = Some (Some (message_or_default err))"
  "p_processedUrl (failure err) = None"
  "p_id (failure err) = None"
  "p_file (failure err) = None"
  "p_previewUrl (failure err) = None"
  "p_originalSize (failure err) = None"
  "p_originalWidth (failure err) = None"
  "p_originalHeight (failure err) = None"
  "p_processedFormat (failure err) = None"
  "p_processedSize (failure err) = None"
  "p_processedWidth (failure err) = None"
  "p_processedHeight (failure err) = None"
  by (simp_all add: failure_def emptyPartial_def)

lemma successRecord_fields:
  "p_status (successRecord u options blob tw th) = Some Completed"
  "p_error (successRecord u options blob tw th) = Some None"
  "p_processedUrl (successRecord u options blob tw th) = Some (Some u)"
  "p_id (successRecord u options blob tw th) = None"
  "p_file (successRecord u options blob tw th) = None"
  "p_previewUrl (successRecord u options blob tw th) = None"
  "p_originalSize (successRecord u options blob tw th) = None"
  "p_originalWidth (successRecord u options blob tw th) = None"
  "p_originalHeight (successRecord u options blob tw th) = None"
  "p_processedFormat (successRecord u options blob tw th) = Some (Some (format options))"
  "p_processedSize (successRecord u options blob tw th) = Some (Some (blob_size blob))"
  "p_processedWidth (successRecord u options blob tw th) = Some (Some tw)"
  "p_processedHeight (successRecord u options blob tw th) = Some (Some th)"
  by (simp_all add: successRecord_def emptyPartial_def)

lemma message_or_default_nonempty: "message_or_default err \<noteq> []"
  by (cases err) simp

lemma processFile_try_cases:
  "(\<exists>err. processFile_try env item options = Inl err) \<or>
   (\<exists>img blob. decode env (previewUrl item) = Some img \<and>
      processFile_try env item options =
        Inr (successRecord (createObjectURL env blob) options blob
          (fst (resolveDimensions (naturalWidth img) (naturalHeight img) options))
          (snd (resolveDimensions (naturalWidth img) (naturalHeight img) options))))"
  by (auto simp: processFile_try_def loadImage_def
      split: option.splits sum.splits prod.splits)

lemma awaitProcessFile_eq:
  "awaitProcessFile env item options =
     (case processFile_try env item options of Inl err \<Rightarrow> failure err | Inr r \<Rightarrow> r)"
  by (simp add: awaitProcessFile_def processFile_def split: sum.split)

lemma awaitProcessFile_cases:
  "(\<exists>err. awaitProcessFile env item options = failure err) \<or>
   (\<exists>u blob tw th. awaitProcessFile env item options = successRecord u options blob tw th)"
proof -
  from processFile_try_cases[of env item options]
  consider err where "processFile_try env item options = Inl err"
    | u blob tw th where "processFile_try env item options = Inr (successRecord u options blob tw th)"
    by blast
  then show ?thesis
    by cases (simp_all add: awaitProcessFile_eq, blast+)
qed

lemma spread_failure:
  "spread f (failure err) = f \<lparr> status := Error, error := Some (message_or_default err) \<rparr>"
  by (simp add: spread_def failure_fields)

lemma spread_success:
  "spread f (successRecord u options blob tw th) =
     f \<lparr> status := Completed, processedUrl := Some u, processedFormat := Some (format options),
         processedSize := Some (blob_size blob), processedWidth := Some tw,
         processedHeight := Some th, error := None \<rparr>"
  by (simp add: spread_def successRecord_fields)

lemma files_mergeResult:
  "files (mergeResult item r st) =
     map (\<lambda>f. if item_id f = item_id item then spread f r else f) (files st)"
proof (cases "list_ex (\<lambda>f. item_id f = item_id item) (files st)")
  case True
  then show ?thesis by (simp add: mergeResult_def Let_def)
next
  case False
  then have "map (\<lambda>f. if item_id f = item_id item then spread f r else f) (files st) = files st"
    by (simp add: list_ex_iff map_idI)
  with False show ?thesis by (simp add: mergeResult_def Let_def)
qed

lemma files_markProcessing:
  "files (markProcessing item st) =
     map (\<lambda>f. if item_id f = item_id item then f \<lparr> status := Processing, error := None \<rparr> else f)
       (files st)"
  by (simp add: markProcessing_def)

lemma files_processOne_quiet:
  "files (processOne env options item [] st) =
     map (\<lambda>f. if item_id f = item_id item
               then spread (f \<lparr> status := Processing, error := None \<rparr>) (awaitProcessFile env item options)
               else f) (files st)"
  by (simp add: processOne_def Let_def files_mergeResult files_markProcessing o_def cong: if_cong)

lemma item_id_spread_await:
  "item_id (spread f (awaitProcessFile env item options)) = item_id f"
  using awaitProcessFile_cases[of env item options]
  by (auto simp: spread_failure spread_success)

lemma item_id_outcome: "item_id (outcome env options f) = item_id f"
  by (simp add: outcome_def item_id_spread_await)

lemma processLoop_quiet:
  assumes "distinct (map item_id items)"
    and "\<forall>f \<in> set (files st). \<forall>item \<in> set items. item_id f = item_id item \<longrightarrow> f = item"
  shows "files (processLoop env options items [] st) =
           map (\<lambda>f. if f \<in> set items then outcome env options f else f) (files st)"
  using assms
proof (induction items arbitrary: st)
  case Nil
  then show ?case by simp
next
  case (Cons item items)
  let ?st1 = "processOne env options item [] st"
  have one: "files ?st1 = map (\<lambda>f. if f = item then outcome env options f else f) (files st)"
    unfolding files_processOne_quiet outcome_def
    using Cons.prems(2) by (intro map_cong) auto
  have d: "distinct (map item_id items)" and ni: "item_id item \<notin> item_id ` set items"
    using Cons.prems(1) by auto
  have inv: "\<forall>f \<in> set (files ?st1). \<forall>it \<in> set items. item_id f = item_id it \<longrightarrow> f = it"
  proof (intro ballI impI)
    fix f it assume f: "f \<in> set (files ?st1)" and it: "it \<in> set items" and e: "item_id f = item_id it"
    from f one obtain g where g: "g \<in> set (files st)" "f = (if g = item then outcome env options g else g)"
      by auto
    show "f = it"
    proof (cases "g = item")
      case True
      with g have "item_id f = item_id item" by (simp add: item_id_outcome)
      with e it ni show ?thesis by force
    next
      case False
      with g e it Cons.prems(2) show ?thesis by auto
    qed
  qed
  have "files (processLoop env options (item # items) [] st) = files (processLoop env options items [] ?st1)"
    by simp
  also have "\<dots> = map (\<lambda>f. if f \<in> set items then outcome env options f else f) (files ?st1)"
    using Cons.IH[OF d inv] .
  also have "\<dots> = map (\<lambda>f. if f \<in> set (item # items) then outcome env options f else f) (files st)"
    unfolding one map_map
  proof (intro map_cong refl)
    fix f assume "f \<in> set (files st)"
    have "outcome env options item \<notin> set items"
      using ni item_id_outcome[of env options item] by (metis imageI)
    then show "((\<lambda>f. if f \<in> set items then outcome env options f else f) \<circ>
           (\<lambda>f. if f = item then outcome env options f else f)) f =
          (if f \<in> set (item # items) then outcome env options f else f)"
      by auto
  qed
  finally show ?case .
qed

lemma set_itemsToProcess: "set (itemsToProcess fs) \<subseteq> set fs"
  by (auto simp: itemsToProcess_def Let_def)

lemma distinct_itemsToProcess:
  "distinct (map item_id fs) \<Longrightarrow> distinct (map item_id (itemsToProcess fs))"
  by (auto simp: itemsToProcess_def Let_def distinct_map_filter)

lemma handleProcessAll_quiet:
  assumes "distinct (map item_id (files st))"
  shows "files (handleProcessAll env options [] st) =
           map (\<lambda>f. if f \<in> set (itemsToProcess (files st)) then outcome env options f else f) (files st)"
proof -
  let ?st0 = "st \<lparr> isProcessing := True \<rparr>"
  have "\<forall>f \<in> set (files ?st0). \<forall>item \<in> set (itemsToProcess (files st)). item_id f = item_id item \<longrightarrow> f = item"
    using assms set_itemsToProcess[of "files st"]
    by (auto simp: distinct_map dest!: inj_onD)
  from processLoop_quiet[OF distinct_itemsToProcess[OF assms] this]
  show ?thesis by (simp add: handleProcessAll_def)
qed

lemma consistent_marked: "consistent (f \<lparr> status := Processing, error := None \<rparr>)"
  by (simp add: consistent_def)

lemma consistent_spread_await: "consistent (spread f (awaitProcessFile env item options))"
  using awaitProcessFile_cases[of env item options]
  by (auto simp: spread_failure spread_success consistent_def hasOutput_def)

lemma consistent_userAction:
  "list_all consistent (files st) \<Longrightarrow> appendsFresh a \<Longrightarrow> list_all consistent (files (userAction st a))"
  by (cases a) (auto simp: handleRemoveFile_def handleClearAll_def Let_def list_all_iff consistent_def)

lemma consistent_userActions:
  "list_all consistent (files st) \<Longrightarrow> \<forall>a \<in> set acts. appendsFresh a \<Longrightarrow>
   list_all consistent (files (foldl userAction st acts))"
  by (induction acts arbitrary: st) (simp_all add: consistent_userAction)

lemma consistent_markProcessing:
  "list_all consistent (files st) \<Longrightarrow> list_all consistent (files (markProcessing item st))"
  by (auto simp: files_markProcessing list_all_iff consistent_marked)

lemma consistent_mergeResult:
  "list_all consistent (files st) \<Longrightarrow>
   list_all consistent (files (mergeResult item (awaitProcessFile env item options) st))"
  by (auto simp: files_mergeResult list_all_iff consistent_spread_await)

lemma consistent_processOne:
  "list_all consistent (files st) \<Longrightarrow> \<forall>a \<in> set acts. appendsFresh a \<Longrightarrow>
   list_all consistent (files (processOne env options item acts st))"
  by (simp add: processOne_def Let_def consistent_mergeResult consistent_userActions
      consistent_markProcessing)

lemma consistent_processLoop:
  "list_all consistent (files st) \<Longrightarrow> \<forall>acts \<in> set sched. \<forall>a \<in> set acts. appendsFresh a \<Longrightarrow>
   list_all consistent (files (processLoop env options items sched st))"
proof (induction items arbitrary: sched st)
  case Nil
  then show ?case by simp
next
  case (Cons item items)
  have a: "\<forall>a \<in> set (case sched of [] \<Rightarrow> [] | acts # _ \<Rightarrow> acts). appendsFresh a"
    using Cons.prems(2) by (cases sched) auto
  have b: "\<forall>acts \<in> set (tl sched). \<forall>a \<in> set acts. appendsFresh a"
    using Cons.prems(2) by (cases sched) auto
  show ?case
    using Cons.IH[OF consistent_processOne[OF Cons.prems(1) a] b] by simp
qed

lemma absent_userAction:
  "\<not> list_ex (\<lambda>f. item_id f = i) (files st) \<Longrightarrow> \<not> appendsId i a \<Longrightarrow>
   \<not> list_ex (\<lambda>f. item_id f = i) (files (userAction st a))"
  by (cases a) (auto simp: handleRemoveFile_def handleClearAll_def Let_def list_ex_iff)

lemma absent_userActions:
  "\<not> list_ex (\<lambda>f. item_id f = i) (files st) \<Longrightarrow> \<forall>a \<in> set acts. \<not> appendsId i a \<Longrightarrow>
   \<not> list_ex (\<lambda>f. item_id f = i) (files (foldl userAction st acts))"
  by (induction acts arbitrary: st) (simp_all add: absent_userAction)

lemma absent_after_remove:
  "\<not> list_ex (\<lambda>f. item_id f = i) (files (handleRemoveFile i st))"
  by (simp add: handleRemoveFile_def Let_def list_ex_iff)

lemma mergeResult_absent:
  "\<not> list_ex (\<lambda>f. item_id f = item_id item) (files st) \<Longrightarrow>
   mergeResult item r st = st \<lparr> revoked := revoked st @ revokeIfSet (get_processedUrl r) \<rparr>"
  by (simp add: mergeResult_def Let_def)

lemma processFile_error_is_failure:
  assumes "processFile env item options = Inr r" "p_status r = Some Error"
  shows "\<exists>err. r = failure err"
proof -
  from processFile_try_cases[of env item options]
  consider err where "processFile_try env item options = Inl err"
    | u blob tw th where "processFile_try env item options = Inr (successRecord u options blob tw th)"
    by blast
  then show ?thesis
  proof cases
    case 1
    with assms(1) show ?thesis by (auto simp: processFile_def)
  next
    case 2
    with assms show ?thesis by (auto simp: processFile_def successRecord_fields)
  qed
qed

lemma error_item_selected:
  "f \<in> set fs \<Longrightarrow> status f = Error \<Longrightarrow> f \<in> set (itemsToProcess fs)"
  by (auto simp: itemsToProcess_def Let_def)

lemma itemsToProcess_cases:
  "itemsToProcess fs =
     (if list_ex (\<lambda>f. status f = Idle \<or> status f = Error) fs
      then filter (\<lambda>f. status f = Idle \<or> status f = Error) fs else fs)"
  by (auto simp: itemsToProcess_def Let_def list_ex_iff filter_empty_conv)

lemma settled_userAction:
  "list_all (\<lambda>f. status f \<noteq> Processing) (files st) \<Longrightarrow> appendsFresh a \<Longrightarrow>
   list_all (\<lambda>f. status f \<noteq> Processing) (files (userAction st a))"
  by (cases a) (auto simp: handleRemoveFile_def handleClearAll_def Let_def list_all_iff)

lemma marked_userAction:
  "list_all (\<lambda>f. status f = Processing \<longrightarrow> item_id f = i) (files st) \<Longrightarrow> appendsFresh a \<Longrightarrow>
   list_all (\<lambda>f. status f = Processing \<longrightarrow> item_id f = i) (files (userAction st a))"
  by (cases a) (auto simp: handleRemoveFile_def handleClearAll_def Let_def list_all_iff)

lemma marked_userActions:
  "list_all (\<lambda>f. status f = Processing \<longrightarrow> item_id f = i) (files st) \<Longrightarrow>
   \<forall>a \<in> set acts. appendsFresh a \<Longrightarrow>
   list_all (\<lambda>f. status f = Processing \<longrightarrow> item_id f = i) (files (foldl userAction st acts))"
  by (induction acts arbitrary: st) (simp_all add: marked_userAction)

lemma status_spread_await:
  "status (spread f (awaitProcessFile env item options)) \<noteq> Processing"
  using awaitProcessFile_cases[of env item options]
  by (auto simp: spread_failure spread_success)

lemma settled_processOne:
  assumes "list_all (\<lambda>f. status f \<noteq> Processing) (files st)" "\<forall>a \<in> set acts. appendsFresh a"
  shows "list_all (\<lambda>f. status f \<noteq> Processing) (files (processOne env options item acts st))"
proof -
  have "list_all (\<lambda>f. status f = Processing \<longrightarrow> item_id f = item_id item) (files (markProcessing item st))"
    using assms(1) by (auto simp: files_markProcessing list_all_iff)
  from marked_userActions[OF this assms(2)]
  show ?thesis
    by (auto simp: processOne_def Let_def files_mergeResult list_all_iff status_spread_await)
qed

lemma settled_processLoop:
  "list_all (\<lambda>f. status f \<noteq> Processing) (files st) \<Longrightarrow>
   \<forall>acts \<in> set sched. \<forall>a \<in> set acts. appendsFresh a \<Longrightarrow>
   list_all (\<lambda>f. status f \<noteq> Processing) (files (processLoop env options items sched st))"
proof (induction items arbitrary: sched st)
  case Nil
  then show ?case by simp
next
  case (Cons item items)
  have a: "\<forall>a \<in> set (case sched of [] \<Rightarrow> [] | acts # _ \<Rightarrow> acts). appendsFresh a"
    using Cons.prems(2) by (cases sched) auto
  have b: "\<forall>acts \<in> set (tl sched). \<forall>a \<in> set acts. appendsFresh a"
    using Cons.prems(2) by (cases sched) auto
  show ?case
    using Cons.IH[OF settled_processOne[OF Cons.prems(1) a] b] by simp
qed

lemma outcome_status:
  "(case processFile_try env f options of
      Inl err \<Rightarrow> status (outcome env options f) = Error
                \<and> error (outcome env options f) = Some (message_or_default err)
    | Inr r \<Rightarrow> status (outcome env options f) = Completed \<and> error (outcome env options f) = None)"
proof -
  from processFile_try_cases[of env f options]
  consider err where "processFile_try env f options = Inl err"
    | u blob tw th where "processFile_try env f options = Inr (successRecord u options blob tw th)"
    by blast
  then show ?thesis
    by cases (simp_all add: outcome_def awaitProcessFile_eq spread_failure spread_success)
qed

lemma ex_process_ok:
  assumes "previewUrl item \<noteq> ''blob:bad''"
  shows "processFile_try ex_env item ex_options =
           Inr (successRecord ''blob:out'' ex_options \<lparr> blob_size = 2048, blob_type = ''image/webp'' \<rparr>
                  (fst (resolveDimensions 1000 500 ex_options))
                  (snd (resolveDimensions 1000 500 ex_options)))"
  using assms by (simp add: processFile_try_def loadImage_def ex_env_def split: prod.split)

lemma ex_process_bad:
  assumes "previewUrl item = ''blob:bad''"
  shows "processFile_try ex_env item options = Inl (JSError ''Failed to load image'')"
  using assms by (simp add: processFile_try_def loadImage_def ex_env_def)

lemma ex_items:
  "item_id ex_idle = ''a''" "item_id ex_done = ''b''" "item_id ex_failed = ''c''"
  "status ex_idle = Idle" "status ex_done = Completed" "status ex_failed = Error"
  "previewUrl ex_idle = ''blob:a''" "previewUrl ex_done = ''blob:b''"
  "previewUrl ex_failed = ''blob:bad''"
  by (simp_all add: ex_idle_def ex_done_def ex_failed_def newItem_def ex_env_def)

lemma ex_consistent: "consistent ex_idle" "consistent ex_done" "consistent ex_failed"
  by (simp_all add: consistent_def noOutput_def hasOutput_def ex_idle_def ex_done_def
      ex_failed_def newItem_def ex_env_def)

text \<open>Entries with an id that no turn of the loop and no appended item carries stay as they are.\<close>

lemma untouched_userAction:
  "list_all (\<lambda>f. item_id f = i \<longrightarrow> f = c) (files st) \<Longrightarrow> \<not> appendsId i a \<Longrightarrow>
   list_all (\<lambda>f. item_id f = i \<longrightarrow> f = c) (files (userAction st a))"
  by (cases a) (auto simp: handleRemoveFile_def handleClearAll_def Let_def list_all_iff)

lemma untouched_userActions:
  "list_all (\<lambda>f. item_id f = i \<longrightarrow> f = c) (files st) \<Longrightarrow> \<forall>a \<in> set acts. \<not> appendsId i a \<Longrightarrow>
   list_all (\<lambda>f. item_id f = i \<longrightarrow> f = c) (files (foldl userAction st acts))"
  by (induction acts arbitrary: st) (simp_all add: untouched_userAction)

lemma untouched_processOne:
  assumes "list_all (\<lambda>f. item_id f = i \<longrightarrow> f = c) (files st)" "item_id item \<noteq> i"
    and "\<forall>a \<in> set acts. \<not> appendsId i a"
  shows "list_all (\<lambda>f. item_id f = i \<longrightarrow> f = c) (files (processOne env options item acts st))"
proof -
  have "list_all (\<lambda>f. item_id f = i \<longrightarrow> f = c) (files (markProcessing item st))"
    using assms(1,2) by (auto simp: files_markProcessing list_all_iff)
  from untouched_userActions[OF this assms(3)] assms(2)
  show ?thesis
    by (auto simp: processOne_def Let_def files_mergeResult list_all_iff item_id_spread_await)
qed

lemma untouched_processLoop:
  "list_all (\<lambda>f. item_id f = i \<longrightarrow> f = c) (files st) \<Longrightarrow>
   \<forall>item \<in> set items. item_id item \<noteq> i \<Longrightarrow>
   \<forall>acts \<in> set sched. \<forall>a \<in> set acts. \<not> appendsId i a \<Longrightarrow>
   list_all (\<lambda>f. item_id f = i \<longrightarrow> f = c) (files (processLoop env options items sched st))"
proof (induction items arbitrary: sched st)
  case Nil
  then show ?case by simp
next
  case (Cons item items)
  have a: "\<forall>a \<in> set (case sched of [] \<Rightarrow> [] | acts # _ \<Rightarrow> acts). \<not> appendsId i a"
    using Cons.prems(3) by (cases sched) auto
  have b: "\<forall>acts \<in> set (tl sched). \<forall>a \<in> set acts. \<not> appendsId i a"
    using Cons.prems(3) by (cases sched) auto
  have n: "item_id item \<noteq> i" and ns: "\<forall>item \<in> set items. item_id item \<noteq> i"
    using Cons.prems(2) by auto
  show ?case
    using Cons.IH[OF untouched_processOne[OF Cons.prems(1) n a] ns b] by simp
qed

section \<open>Dimension resolution\<close>

text \<open>
  Claim C1, as amended. The dimension step of \<^verbatim>\<open>processFile\<close> applies no minimum: each
  dimension is what the rule of the resize mode computes. For an image of natural size
  \<open>W\<close> by \<open>H\<close> (both positive and below \<open>2\<^sup>3\<^sup>2\<close>) and an integer resize value \<open>v\<close> with
  \<open>\<bar>v\<bar> \<le> 2\<^sup>1\<^sup>8\<close>: under \<^verbatim>\<open>original\<close> both dimensions are at least 1; under \<^verbatim>\<open>percentage\<close> they are
  both at least 1 when \<open>W * v > 50\<close> and \<open>H * v > 50\<close>, and not both when \<open>W * v < 50\<close> or
  \<open>H * v < 50\<close>; under \<^verbatim>\<open>fixed-width\<close> without aspect ratio they are both at least 1 exactly
  when \<open>v \<ge> 1\<close>, and with aspect ratio they are when \<open>v \<ge> 1\<close> and \<open>2 * v * H > W\<close>, and are
  not when \<open>v < 1\<close> or \<open>2 * v * H < W\<close>; \<^verbatim>\<open>fixed-height\<close> is symmetric.
\<close>

theorem resolved_dimensions_at_least_one:
  fixes W H :: nat and v :: int
  assumes W: "0 < W" "W < 2 ^ 32" and H: "0 < H" "H < 2 ^ 32" and v: "\<bar>v\<bar> \<le> 2 ^ 18"
    and val: "resizeValue options = Fin (of_int v)"
  shows "case resizeMode options of
      Original \<Rightarrow> bothAtLeastOne (resolveDimensions W H options)
    | Percentage \<Rightarrow>
        (50 < int W * v \<and> 50 < int H * v \<longrightarrow> bothAtLeastOne (resolveDimensions W H options))
        \<and> (int W * v < 50 \<or> int H * v < 50 \<longrightarrow> \<not> bothAtLeastOne (resolveDimensions W H options))
    | FixedWidth \<Rightarrow>
        if maintainAspectRatio options
        then (1 \<le> v \<and> int W < 2 * (v * int H) \<longrightarrow> bothAtLeastOne (resolveDimensions W H options))
           \<and> (v < 1 \<or> 2 * (v * int H) < int W \<longrightarrow> \<not> bothAtLeastOne (resolveDimensions W H options))
        else bothAtLeastOne (resolveDimensions W H options) \<longleftrightarrow> 1 \<le> v
    | FixedHeight \<Rightarrow>
        if maintainAspectRatio options
        then (1 \<le> v \<and> int H < 2 * (v * int W) \<longrightarrow> bothAtLeastOne (resolveDimensions W H options))
           \<and> (v < 1 \<or> 2 * (v * int W) < int H \<longrightarrow> \<not> bothAtLeastOne (resolveDimensions W H options))
        else bothAtLeastOne (resolveDimensions W H options) \<longleftrightarrow> 1 \<le> v"
proof (cases "resizeMode options")
  case Original
  then show ?thesis using W H by (simp add: resolveDimensions_def bothAtLeastOne_def)
next
  case Percentage
  from percentage_axis[OF W(2) v] obtain w where
    w: "Math_round (num_mult (Fin (of_nat W)) (num_div (Fin (of_int v)) (Fin 100))) = Fin (of_int w)"
       "50 < int W * v \<longrightarrow> 1 \<le> w" "int W * v < 50 \<longrightarrow> w \<le> 0"
    by blast
  from percentage_axis[OF H(2) v] obtain h where
    h: "Math_round (num_mult (Fin (of_nat H)) (num_div (Fin (of_int v)) (Fin 100))) = Fin (of_int h)"
       "50 < int H * v \<longrightarrow> 1 \<le> h" "int H * v < 50 \<longrightarrow> h \<le> 0"
    by blast
  have r: "resolveDimensions W H options = (Fin (of_int w), Fin (of_int h))"
    unfolding resolveDimensions_def Let_def Percentage val w(1) h(1) by simp
  show ?thesis using w(2,3) h(2,3) by (auto simp: Percentage r bothAtLeastOne_def)
next
  case FixedWidth
  show ?thesis
  proof (cases "maintainAspectRatio options")
    case True
    from aspect_axis[OF H W v] obtain h where
      h: "Math_round (num_mult (Fin (of_int v)) (num_div (Fin (of_nat H)) (Fin (of_nat W)))) = Fin (of_int h)"
         "int W < 2 * (v * int H) \<longrightarrow> 1 \<le> h" "2 * (v * int H) < int W \<longrightarrow> h \<le> 0"
      by blast
    have r: "resolveDimensions W H options = (Fin (of_int v), Fin (of_int h))"
      unfolding resolveDimensions_def Let_def FixedWidth val using True h(1) by simp
    show ?thesis using h(2,3) True by (auto simp: FixedWidth r bothAtLeastOne_def)
  next
    case False
    then show ?thesis using H by (simp add: resolveDimensions_def FixedWidth val bothAtLeastOne_def)
  qed
next
  case FixedHeight
  show ?thesis
  proof (cases "maintainAspectRatio options")
    case True
    from aspect_axis[OF W H v] obtain w where
      w: "Math_round (num_mult (Fin (of_int v)) (num_div (Fin (of_nat W)) (Fin (of_nat H)))) = Fin (of_int w)"
         "int H < 2 * (v * int W) \<longrightarrow> 1 \<le> w" "2 * (v * int W) < int H \<longrightarrow> w \<le> 0"
      by blast
    have r: "resolveDimensions W H options = (Fin (of_int w), Fin (of_int v))"
      unfolding resolveDimensions_def Let_def FixedHeight val using True w(1) by simp
    show ?thesis using w(2,3) True by (auto simp: FixedHeight r bothAtLeastOne_def)
  next
    case False
    then show ?thesis using W by (simp add: resolveDimensions_def FixedHeight val bothAtLeastOne_def)
  qed
qed

theorem resolved_dimensions_at_least_one_witness:
  "bothAtLeastOne (resolveDimensions 1000 500 ex_options)
   \<and> \<not> bothAtLeastOne (resolveDimensions 4 4 ex_percent10)
   \<and> \<not> bothAtLeastOne (resolveDimensions 800 600 ex_width0)"
proof (intro conjI)
  show "bothAtLeastOne (resolveDimensions 1000 500 ex_options)"
    using resolved_dimensions_at_least_one[where W = 1000 and H = 500 and v = 500 and options = ex_options]
    by (simp add: ex_options_def)
  show "\<not> bothAtLeastOne (resolveDimensions 4 4 ex_percent10)"
    using resolved_dimensions_at_least_one[where W = 4 and H = 4 and v = 10 and options = ex_percent10]
    by (simp add: ex_percent10_def)
  show "\<not> bothAtLeastOne (resolveDimensions 800 600 ex_width0)"
    using resolved_dimensions_at_least_one[where W = 800 and H = 600 and v = 0 and options = ex_width0]
    by (simp add: ex_width0_def)
qed

text \<open>
  Claim C1 as stated fails: a fixed width of 0 on an 800 by 600 image resolves to a width of
  0, and 10 percent of a 4 by 4 image resolves to 0 by 0.
\<close>

theorem no_minimum_clamp_counterexample:
  "\<not> bothAtLeastOne (resolveDimensions 800 600 ex_width0)
   \<and> resolveDimensions 800 600 ex_width0 = (Fin 0, Fin 600)
   \<and> resolveDimensions 4 4 ex_percent10 = (Fin 0, Fin 0)"
  by (simp add: width0_of_800_600 percent10_of_4 bothAtLeastOne_def)

text \<open>
  Claim C6, as amended. Under \<^verbatim>\<open>percentage\<close> with an integer resize value \<open>v\<close>
  (\<open>\<bar>v\<bar> \<le> 2\<^sup>1\<^sup>8\<close>, image sides below \<open>2\<^sup>3\<^sup>2\<close>) both resolved dimensions are integers, computed
  the same way from the one ratio \<^verbatim>\<open>resizeValue / 100\<close> whatever \<^verbatim>\<open>maintainAspectRatio\<close> is.
  The width is \<open>W * v / 100\<close> rounded to the nearest integer (halves up) unless \<open>W * v / 100\<close>
  lies exactly halfway between two integers, where the binary64 product may fall just below
  the half and the width is that rounded value or one less; likewise the height.
\<close>

theorem percentage_dimensions:
  fixes W H :: nat and v :: int
  assumes W: "W < 2 ^ 32" and H: "H < 2 ^ 32" and v: "\<bar>v\<bar> \<le> 2 ^ 18"
    and mode: "resizeMode options = Percentage" and val: "resizeValue options = Fin (of_int v)"
  shows "\<exists>w h. resolveDimensions W H options = (Fin (of_int w), Fin (of_int h))
     \<and> (if (int W * v) mod 100 = 50
         then w = \<lfloor>(of_int (int W * v) / 100 :: rat) + 1/2\<rfloor> - 1
              \<or> w = \<lfloor>(of_int (int W * v) / 100 :: rat) + 1/2\<rfloor>
         else w = \<lfloor>(of_int (int W * v) / 100 :: rat) + 1/2\<rfloor>)
     \<and> (if (int H * v) mod 100 = 50
         then h = \<lfloor>(of_int (int H * v) / 100 :: rat) + 1/2\<rfloor> - 1
              \<or> h = \<lfloor>(of_int (int H * v) / 100 :: rat) + 1/2\<rfloor>
         else h = \<lfloor>(of_int (int H * v) / 100 :: rat) + 1/2\<rfloor>)
     \<and> resolveDimensions W H (options \<lparr> maintainAspectRatio := b \<rparr>) = resolveDimensions W H options"
proof -
  from percentage_axis[OF W v] obtain w where
    w: "Math_round (num_mult (Fin (of_nat W)) (num_div (Fin (of_int v)) (Fin 100))) = Fin (of_int w)"
       "if (int W * v) mod 100 = 50
         then w = \<lfloor>(of_int (int W * v) / 100 :: rat) + 1/2\<rfloor> - 1
              \<or> w = \<lfloor>(of_int (int W * v) / 100 :: rat) + 1/2\<rfloor>
         else w = \<lfloor>(of_int (int W * v) / 100 :: rat) + 1/2\<rfloor>"
    by blast
  from percentage_axis[OF H v] obtain h where
    h: "Math_round (num_mult (Fin (of_nat H)) (num_div (Fin (of_int v)) (Fin 100))) = Fin (of_int h)"
       "if (int H * v) mod 100 = 50
         then h = \<lfloor>(of_int (int H * v) / 100 :: rat) + 1/2\<rfloor> - 1
              \<or> h = \<lfloor>(of_int (int H * v) / 100 :: rat) + 1/2\<rfloor>
         else h = \<lfloor>(of_int (int H * v) / 100 :: rat) + 1/2\<rfloor>"
    by blast
  have r: "resolveDimensions W H options = (Fin (of_int w), Fin (of_int h))"
    unfolding resolveDimensions_def Let_def mode val w(1) h(1) by simp
  have m: "resolveDimensions W H (options \<lparr> maintainAspectRatio := b \<rparr>) = resolveDimensions W H options"
    by (simp add: resolveDimensions_def mode)
  from r w(2) h(2) m show ?thesis by blast
qed

theorem percentage_dimensions_witness:
  "resolveDimensions 1000 500 ex_percent50 = (Fin 500, Fin 250)
   \<and> resolveDimensions 1000 500 (ex_percent50 \<lparr> maintainAspectRatio := True \<rparr>)
       = resolveDimensions 1000 500 ex_percent50"
proof -
  from percentage_dimensions[where W = 1000 and H = 500 and v = 50 and options = ex_percent50
      and b = True]
  obtain w h where r: "resolveDimensions 1000 500 ex_percent50 = (Fin (of_int w), Fin (of_int h))"
    and w: "w = \<lfloor>(of_int (1000 * 50) / 100 :: rat) + 1/2\<rfloor>"
    and h: "h = \<lfloor>(of_int (500 * 50) / 100 :: rat) + 1/2\<rfloor>"
    and m: "resolveDimensions 1000 500 (ex_percent50 \<lparr> maintainAspectRatio := True \<rparr>)
       = resolveDimensions 1000 500 ex_percent50"
    by (auto simp: ex_percent50_def)
  have "w = 500" unfolding w by (simp add: floor_eq_iff)
  moreover have "h = 250" unfolding h by (simp add: floor_eq_iff)
  ultimately show ?thesis using r m by simp
qed

text \<open>
  Claim C6 as stated fails: 70 percent of a 45 by 45 image resolves to 31 by 31, while
  \<open>45 * 70 / 100 = 31.5\<close> rounds to 32 (the binary64 product \<^verbatim>\<open>45 * 0.7\<close> is
  \<^verbatim>\<open>31.499999999999996\<close>).
\<close>

theorem percentage_rounding_counterexample:
  "resolveDimensions 45 45 ex_percent70 = (Fin 31, Fin 31)
   \<and> \<lfloor>(45 * 70 / 100 :: rat) + 1/2\<rfloor> = 32
   \<and> resolveDimensions 45 45 ex_percent70
       \<noteq> (Fin (of_int \<lfloor>(45 * 70 / 100 :: rat) + 1/2\<rfloor>), Fin (of_int \<lfloor>(45 * 70 / 100 :: rat) + 1/2\<rfloor>))"
proof -
  have "\<lfloor>(45 * 70 / 100 :: rat) + 1/2\<rfloor> = 32" by (simp add: floor_eq_iff)
  then show ?thesis by (simp add: percent70_of_45)
qed

text \<open>
  Claim C7, as amended. Under \<^verbatim>\<open>fixed-width\<close> with an integer resize value \<open>v\<close>
  (\<open>\<bar>v\<bar> \<le> 2\<^sup>1\<^sup>8\<close>, image sides positive and below \<open>2\<^sup>3\<^sup>2\<close>) the resolved width is \<open>v\<close>. Without
  aspect ratio the height is \<open>H\<close>, unchanged. With aspect ratio the height is an integer:
  \<open>v * H / W\<close> rounded to the nearest integer (halves up) unless \<open>v * H / W\<close> lies exactly
  halfway between two integers, where the binary64 product of \<open>v\<close> with the ratio
  \<^verbatim>\<open>naturalHeight / naturalWidth\<close> may fall just below the half and the height is that rounded
  value or one less.
\<close>

theorem fixed_width_dimensions:
  fixes W H :: nat and v :: int
  assumes W: "0 < W" "W < 2 ^ 32" and H: "0 < H" "H < 2 ^ 32" and v: "\<bar>v\<bar> \<le> 2 ^ 18"
    and mode: "resizeMode options = FixedWidth" and val: "resizeValue options = Fin (of_int v)"
  shows "fst (resolveDimensions W H options) = Fin (of_int v)
     \<and> (if maintainAspectRatio options
         then \<exists>h. snd (resolveDimensions W H options) = Fin (of_int h)
                \<and> (if (2 * (v * int H)) mod (2 * int W) = int W
                    then h = \<lfloor>(of_int (v * int H) / of_int (int W) :: rat) + 1/2\<rfloor> - 1
                         \<or> h = \<lfloor>(of_int (v * int H) / of_int (int W) :: rat) + 1/2\<rfloor>
                    else h = \<lfloor>(of_int (v * int H) / of_int (int W) :: rat) + 1/2\<rfloor>)
         else snd (resolveDimensions W H options) = Fin (of_nat H))"
proof (cases "maintainAspectRatio options")
  case True
  from aspect_axis[OF H W v] obtain h where
    h: "Math_round (num_mult (Fin (of_int v)) (num_div (Fin (of_nat H)) (Fin (of_nat W)))) = Fin (of_int h)"
       "if (2 * (v * int H)) mod (2 * int W) = int W
                    then h = \<lfloor>(of_int (v * int H) / of_int (int W) :: rat) + 1/2\<rfloor> - 1
                         \<or> h = \<lfloor>(of_int (v * int H) / of_int (int W) :: rat) + 1/2\<rfloor>
                    else h = \<lfloor>(of_int (v * int H) / of_int (int W) :: rat) + 1/2\<rfloor>"
    by blast
  have r: "resolveDimensions W H options = (Fin (of_int v), Fin (of_int h))"
    unfolding resolveDimensions_def Let_def mode val using True h(1) by simp
  from r h(2) True show ?thesis by auto
next
  case False
  then show ?thesis by (simp add: resolveDimensions_def mode val)
qed

theorem fixed_width_dimensions_witness:
  "resolveDimensions 1000 500 ex_options = (Fin 500, Fin 250)
   \<and> resolveDimensions 800 600 ex_width0 = (Fin 0, Fin 600)"
proof
  from fixed_width_dimensions[where W = 1000 and H = 500 and v = 500 and options = ex_options]
  obtain h where f: "fst (resolveDimensions 1000 500 ex_options) = Fin 500"
    and s: "snd (resolveDimensions 1000 500 ex_options) = Fin (of_int h)"
    and h: "h = \<lfloor>(of_int (500 * 500) / of_int 1000 :: rat) + 1/2\<rfloor>"
    by (auto simp: ex_options_def)
  have "h = 250" unfolding h by (simp add: floor_eq_iff)
  with f s show "resolveDimensions 1000 500 ex_options = (Fin 500, Fin 250)"
    by (simp add: prod_eq_iff)
  from fixed_width_dimensions[where W = 800 and H = 600 and v = 0 and options = ex_width0]
  show "resolveDimensions 800 600 ex_width0 = (Fin 0, Fin 600)"
    by (simp add: ex_width0_def prod_eq_iff)
qed

text \<open>
  Claim C7 as stated fails: a fixed width of 100 with aspect ratio on a 640 by 3024 image
  resolves to a height of 472, while \<open>100 * 3024 / 640 = 472.5\<close> rounds to 473 (the binary64
  product \<^verbatim>\<open>100 * 4.725\<close> is \<^verbatim>\<open>472.49999999999994\<close>).
\<close>

theorem fixed_width_rounding_counterexample:
  "resolveDimensions 640 3024 ex_width100 = (Fin 100, Fin 472)
   \<and> \<lfloor>(100 * 3024 / 640 :: rat) + 1/2\<rfloor> = 473
   \<and> snd (resolveDimensions 640 3024 ex_width100) \<noteq> Fin (of_int \<lfloor>(100 * 3024 / 640 :: rat) + 1/2\<rfloor>)"
proof -
  have "\<lfloor>(100 * 3024 / 640 :: rat) + 1/2\<rfloor> = 473" by (simp add: floor_eq_iff)
  then show ?thesis by (simp add: width100_of_640_3024)
qed

section \<open>Batch selection and status transitions\<close>

text \<open>
  Claim C2. The items selected by a batch run are exactly those whose status is \<^verbatim>\<open>idle\<close> or
  \<^verbatim>\<open>error\<close>, in collection order; if there is none, the selection is the whole collection.
  In a run during which nothing else touches a collection with distinct ids, each selected
  item is replaced by its outcome and every other item stays as it is; in particular a
  \<^verbatim>\<open>completed\<close> item is left untouched whenever some item is \<^verbatim>\<open>idle\<close> or in \<^verbatim>\<open>error\<close>.
  Under any interleaving of user actions that append no item with its id, whatever entry
  with the id of that \<^verbatim>\<open>completed\<close> item is in the collection after the run is the item
  itself, unchanged.
\<close>

theorem batch_selection:
  "itemsToProcess fs =
     (if list_ex (\<lambda>f. status f = Idle \<or> status f = Error) fs
      then filter (\<lambda>f. status f = Idle \<or> status f = Error) fs else fs)
   \<and> (distinct (map item_id (files st)) \<longrightarrow>
        files (handleProcessAll env options [] st) =
          map (\<lambda>f. if f \<in> set (itemsToProcess (files st)) then outcome env options f else f) (files st))
   \<and> (distinct (map item_id (files st)) \<longrightarrow>
        list_ex (\<lambda>f. status f = Idle \<or> status f = Error) (files st) \<longrightarrow>
        i < length (files st) \<longrightarrow> status (files st ! i) = Completed \<longrightarrow>
        files (handleProcessAll env options [] st) ! i = files st ! i)
   \<and> (distinct (map item_id (files st)) \<longrightarrow>
        list_ex (\<lambda>f. status f = Idle \<or> status f = Error) (files st) \<longrightarrow>
        list_ex (\<lambda>f. f = c) (files st) \<longrightarrow> status c = Completed \<longrightarrow>
        list_all (list_all (\<lambda>a. \<not> appendsId (item_id c) a)) sched \<longrightarrow>
        list_all (\<lambda>f. item_id f = item_id c \<longrightarrow> f = c)
          (files (handleProcessAll env options sched st)))"
proof (intro conjI impI)
  show "itemsToProcess fs =
     (if list_ex (\<lambda>f. status f = Idle \<or> status f = Error) fs
      then filter (\<lambda>f. status f = Idle \<or> status f = Error) fs else fs)"
    by (rule itemsToProcess_cases)
next
  assume "distinct (map item_id (files st))"
  then show "files (handleProcessAll env options [] st) =
          map (\<lambda>f. if f \<in> set (itemsToProcess (files st)) then outcome env options f else f) (files st)"
    by (rule handleProcessAll_quiet)
next
  assume d: "distinct (map item_id (files st))"
    and ex: "list_ex (\<lambda>f. status f = Idle \<or> status f = Error) (files st)"
    and i: "i < length (files st)" and c: "status (files st ! i) = Completed"
  from ex c have "files st ! i \<notin> set (itemsToProcess (files st))"
    by (auto simp: itemsToProcess_cases)
  with i show "files (handleProcessAll env options [] st) ! i = files st ! i"
    by (simp add: handleProcessAll_quiet[OF d])
next
  assume d: "distinct (map item_id (files st))"
    and ex: "list_ex (\<lambda>f. status f = Idle \<or> status f = Error) (files st)"
    and c: "list_ex (\<lambda>f. f = c) (files st)" "status c = Completed"
    and s: "list_all (list_all (\<lambda>a. \<not> appendsId (item_id c) a)) sched"
  from c(1) have cm: "c \<in> set (files st)" by (simp add: list_ex_iff)
  have same: "f = c" if "f \<in> set (files st)" "item_id f = item_id c" for f
    using d cm that by (auto simp: distinct_map dest: inj_onD)
  then have start: "list_all (\<lambda>f. item_id f = item_id c \<longrightarrow> f = c) (files (st \<lparr> isProcessing := True \<rparr>))"
    by (simp add: list_all_iff)
  have others: "\<forall>item \<in> set (itemsToProcess (files st)). item_id item \<noteq> item_id c"
  proof
    fix item assume "item \<in> set (itemsToProcess (files st))"
    with ex have m: "item \<in> set (files st)" and n: "status item \<noteq> Completed"
      by (auto simp: itemsToProcess_cases)
    show "item_id item \<noteq> item_id c"
    proof
      assume "item_id item = item_id c"
      with m have "item = c" by (rule same)
      with n c(2) show False by simp
    qed
  qed
  from s have "\<forall>acts \<in> set sched. \<forall>a \<in> set acts. \<not> appendsId (item_id c) a"
    by (simp add: list_all_iff)
  from untouched_processLoop[OF start others this]
  show "list_all (\<lambda>f. item_id f = item_id c \<longrightarrow> f = c)
          (files (handleProcessAll env options sched st))"
    by (simp add: handleProcessAll_def)
qed

theorem batch_selection_witness:
  "itemsToProcess [ex_idle, ex_done, ex_failed] = [ex_idle, ex_failed]
   \<and> itemsToProcess [ex_done] = [ex_done]
   \<and> files (handleProcessAll ex_env ex_options [] ex_state) ! 1 = ex_done
   \<and> list_all (\<lambda>f. item_id f = item_id ex_done \<longrightarrow> f = ex_done)
        (files (handleProcessAll ex_env ex_options [[Remove ''c'']] ex_state))"
proof (intro conjI)
  note sel = batch_selection[THEN conjunct1]
  show "itemsToProcess [ex_idle, ex_done, ex_failed] = [ex_idle, ex_failed]"
    using sel[of "[ex_idle, ex_done, ex_failed]"] by (simp add: ex_items)
  show "itemsToProcess [ex_done] = [ex_done]"
    using sel[of "[ex_done]"] by (simp add: ex_items)
  have d: "distinct (map item_id (files ex_state))" by (simp add: ex_state_def ex_items)
  have e: "list_ex (\<lambda>f. status f = Idle \<or> status f = Error) (files ex_state)"
    by (simp add: ex_state_def ex_items)
  have i: "1 < length (files ex_state)" by (simp add: ex_state_def)
  have c: "status (files ex_state ! 1) = Completed" by (simp add: ex_state_def ex_items)
  from batch_selection[where st = ex_state and env = ex_env and options = ex_options and i = 1]
    d e i c
  have "files (handleProcessAll ex_env ex_options [] ex_state) ! 1 = files ex_state ! 1"
    by blast
  then show "files (handleProcessAll ex_env ex_options [] ex_state) ! 1 = ex_done"
    by (simp add: ex_state_def)
  have m: "list_ex (\<lambda>f. f = ex_done) (files ex_state)" by (simp add: ex_state_def)
  have s: "status ex_done = Completed" by (simp add: ex_items)
  have a: "list_all (list_all (\<lambda>a. \<not> appendsId (item_id ex_done) a)) [[Remove ''c'']]" by simp
  from batch_selection[where st = ex_state and env = ex_env and options = ex_options
      and c = ex_done and sched = "[[Remove ''c'']]"] d e m s a
  show "list_all (\<lambda>f. item_id f = item_id ex_done \<longrightarrow> f = ex_done)
        (files (handleProcessAll ex_env ex_options [[Remove ''c'']] ex_state))"
    by blast
qed

text \<open>
  Claim C3, as amended. When the controller moves an item to \<^verbatim>\<open>processing\<close> it clears the
  error field and leaves the five output fields as they are. Through a whole batch run,
  whatever the user does meanwhile, every item keeps its fields consistent with its status:
  nothing is set while \<^verbatim>\<open>idle\<close>, no error is set while \<^verbatim>\<open>processing\<close>, all five output fields
  and no error are set when \<^verbatim>\<open>completed\<close>, and an error is set when in \<^verbatim>\<open>error\<close>.
\<close>

theorem status_consistency:
  "(i < length (files st) \<longrightarrow> item_id (files st ! i) = item_id item \<longrightarrow>
      status (files (markProcessing item st) ! i) = Processing
      \<and> error (files (markProcessing item st) ! i) = None
      \<and> processedUrl (files (markProcessing item st) ! i) = processedUrl (files st ! i)
      \<and> processedFormat (files (markProcessing item st) ! i) = processedFormat (files st ! i)
      \<and> processedSize (files (markProcessing item st) ! i) = processedSize (files st ! i)
      \<and> processedWidth (files (markProcessing item st) ! i) = processedWidth (files st ! i)
      \<and> processedHeight (files (markProcessing item st) ! i) = processedHeight (files st ! i))
   \<and> (list_all consistent (files st) \<longrightarrow> list_all (list_all appendsFresh) sched \<longrightarrow>
        list_all consistent (files (handleProcessAll env options sched st)))"
proof (intro conjI impI)
  assume "i < length (files st)" "item_id (files st ! i) = item_id item"
  then have m: "files (markProcessing item st) ! i = (files st ! i) \<lparr> status := Processing, error := None \<rparr>"
    by (simp add: files_markProcessing)
  show "status (files (markProcessing item st) ! i) = Processing"
    and "error (files (markProcessing item st) ! i) = None"
    and "processedUrl (files (markProcessing item st) ! i) = processedUrl (files st ! i)"
    and "processedFormat (files (markProcessing item st) ! i) = processedFormat (files st ! i)"
    and "processedSize (files (markProcessing item st) ! i) = processedSize (files st ! i)"
    and "processedWidth (files (markProcessing item st) ! i) = processedWidth (files st ! i)"
    and "processedHeight (files (markProcessing item st) ! i) = processedHeight (files st ! i)"
    by (simp_all add: m)
next
  assume c: "list_all consistent (files st)" and s: "list_all (list_all appendsFresh) sched"
  from s have "\<forall>acts \<in> set sched. \<forall>a \<in> set acts. appendsFresh a"
    by (simp add: list_all_iff)
  with c show "list_all consistent (files (handleProcessAll env options sched st))"
    using consistent_processLoop[of "st \<lparr> isProcessing := True \<rparr>" sched env options
        "itemsToProcess (files st)"]
    by (simp add: handleProcessAll_def)
qed

theorem status_consistency_witness:
  "status (files (markProcessing ex_done ex_state) ! 1) = Processing
   \<and> error (files (markProcessing ex_done ex_state) ! 1) = None
   \<and> processedUrl (files (markProcessing ex_done ex_state) ! 1) = Some ''blob:old''
   \<and> list_all consistent (files (handleProcessAll ex_env ex_options [[Remove ''c'']] ex_state))"
proof -
  have i: "1 < length (files ex_state)" by (simp add: ex_state_def)
  have e: "item_id (files ex_state ! 1) = item_id ex_done" by (simp add: ex_state_def)
  have c: "list_all consistent (files ex_state)" by (simp add: ex_state_def ex_consistent)
  have s: "list_all (list_all appendsFresh) [[Remove ''c'']]" by simp
  have u: "processedUrl (files ex_state ! 1) = Some ''blob:old''"
    by (simp add: ex_state_def ex_done_def)
  from status_consistency[of 1 ex_state ex_done "[[Remove ''c'']]" ex_env ex_options] i e c s u
  show ?thesis by simp
qed

text \<open>
  Claim C3 as stated fails: a completed item that is moved back to \<^verbatim>\<open>processing\<close> keeps its
  output fields, and when its reprocessing then fails it ends in \<^verbatim>\<open>error\<close> with the error
  field and the old output fields both set.
\<close>

theorem reentry_keeps_outputs_counterexample:
  "status (files (markProcessing ex_done ex_state) ! 1) = Processing
   \<and> hasOutput (files (markProcessing ex_done ex_state) ! 1)
   \<and> files (handleProcessAll ex_env ex_options [] ex_rerun)
       = [ex_stale \<lparr> status := Error, error := Some ''Failed to load image'' \<rparr>]
   \<and> hasOutput (ex_stale \<lparr> status := Error, error := Some ''Failed to load image'' \<rparr>)"
proof (intro conjI)
  have m: "files (markProcessing ex_done ex_state) ! 1 = ex_done \<lparr> status := Processing, error := None \<rparr>"
    by (simp add: files_markProcessing ex_state_def ex_items)
  show "status (files (markProcessing ex_done ex_state) ! 1) = Processing"
    unfolding m by simp
  show "hasOutput (files (markProcessing ex_done ex_state) ! 1)"
    unfolding m by (simp add: hasOutput_def ex_done_def)
  have d: "distinct (map item_id (files ex_rerun))" by (simp add: ex_rerun_def)
  have p: "processFile_try ex_env ex_stale ex_options = Inl (JSError ''Failed to load image'')"
    by (rule ex_process_bad) (simp add: ex_stale_def)
  show "files (handleProcessAll ex_env ex_options [] ex_rerun)
       = [ex_stale \<lparr> status := Error, error := Some ''Failed to load image'' \<rparr>]"
  proof -
    have o: "outcome ex_env ex_options ex_stale
               = ex_stale \<lparr> status := Error, error := Some ''Failed to load image'' \<rparr>"
      by (simp add: outcome_def awaitProcessFile_eq p spread_failure)
    have sel: "itemsToProcess [ex_stale] = [ex_stale]"
      by (simp add: itemsToProcess_def ex_stale_def ex_done_def)
    show ?thesis
      unfolding handleProcessAll_quiet[OF d] by (simp add: ex_rerun_def sel o)
  qed
  show "hasOutput (ex_stale \<lparr> status := Error, error := Some ''Failed to load image'' \<rparr>)"
    by (simp add: hasOutput_def ex_stale_def ex_done_def)
qed

section \<open>Failure handling\<close>

text \<open>
  Claim C4, as amended. If the encoding step of \<^verbatim>\<open>processFile\<close> is reached and hands \<^verbatim>\<open>null\<close>
  to its callback, \<^verbatim>\<open>processFile\<close> returns a failure record: status \<^verbatim>\<open>error\<close> with the message
  \<^verbatim>\<open>Image encoding failed\<close>.
\<close>

theorem null_encoding_is_failure:
  assumes "decode env (previewUrl item) = Some img"
    and "resolveDimensions (naturalWidth img) (naturalHeight img) options = (targetWidth, targetHeight)"
    and "getContext env targetWidth targetHeight"
    and "drawImage env img targetWidth targetHeight = None"
    and "toBlob env img targetWidth targetHeight (format options) (quality options) = Inr None"
  shows "processFile env item options = Inr (failure (JSError ''Image encoding failed''))
       \<and> p_status (failure (JSError ''Image encoding failed'')) = Some Error
       \<and> p_error (failure (JSError ''Image encoding failed'')) = Some (Some ''Image encoding failed'')"
  using assms
  by (simp add: processFile_def processFile_try_def loadImage_def failure_fields)

theorem null_encoding_is_failure_witness:
  "processFile ex_env_null ex_idle ex_options = Inr (failure (JSError ''Image encoding failed''))
   \<and> p_status (failure (JSError ''Image encoding failed'')) = Some Error"
proof -
  let ?img = "\<lparr> naturalWidth = 1000, naturalHeight = 500 \<rparr>"
  let ?w = "fst (resolveDimensions 1000 500 ex_options)"
  let ?h = "snd (resolveDimensions 1000 500 ex_options)"
  have 1: "decode ex_env_null (previewUrl ex_idle) = Some ?img"
    by (simp add: ex_env_null_def ex_env_def ex_items)
  have 2: "resolveDimensions (naturalWidth ?img) (naturalHeight ?img) ex_options = (?w, ?h)"
    by simp
  have 3: "getContext ex_env_null ?w ?h" by (simp add: ex_env_null_def ex_env_def)
  have 4: "drawImage ex_env_null ?img ?w ?h = None" by (simp add: ex_env_null_def ex_env_def)
  have 5: "toBlob ex_env_null ?img ?w ?h (format ex_options) (quality ex_options) = Inr None"
    by (simp add: ex_env_null_def ex_env_def)
  from null_encoding_is_failure[OF 1 2 3 4 5] show ?thesis by simp
qed

text \<open>
  Claim C4 as stated fails for the empty result: when the encoder hands over a blob of zero
  bytes, \<^verbatim>\<open>processFile\<close> returns a success record with \<^verbatim>\<open>processedSize\<close> 0.
\<close>

theorem empty_blob_is_success_counterexample:
  "(case processFile ex_env_empty ex_idle ex_options of
      Inl err \<Rightarrow> False
    | Inr r \<Rightarrow> p_status r = Some Completed \<and> p_processedSize r = Some (Some 0) \<and> p_error r = Some None)"
  by (simp add: processFile_def processFile_try_def loadImage_def ex_env_empty_def ex_env_def
      ex_items successRecord_fields split: prod.split)

text \<open>
  Claim C5. \<^verbatim>\<open>processFile\<close> never rejects: whatever is thrown inside it becomes a failure
  record with status \<^verbatim>\<open>error\<close> and a non-empty message, and the three named causes (the image
  does not load, no canvas context, the encoder gives \<^verbatim>\<open>null\<close>) are such throws. A batch run
  always reaches its end: the processing flag is off, no item is left in \<^verbatim>\<open>processing\<close>
  whatever the user does meanwhile, and in an undisturbed run on distinct ids each selected
  item ends in the status that its own pipeline call decides, \<^verbatim>\<open>error\<close> with its message or
  \<^verbatim>\<open>completed\<close>, whatever happens to the other items.
\<close>

theorem failures_contained:
  "(case processFile_try env item options of
      Inl err \<Rightarrow> processFile env item options = Inr (failure err)
                \<and> p_status (failure err) = Some Error
                \<and> p_error (failure err) = Some (Some (message_or_default err))
                \<and> message_or_default err \<noteq> []
    | Inr r \<Rightarrow> processFile env item options = Inr r \<and> p_status r = Some Completed)
   \<and> (decode env (previewUrl item) = None \<longrightarrow>
        processFile_try env item options = Inl (JSError ''Failed to load image''))
   \<and> (case decode env (previewUrl item) of
        None \<Rightarrow> True
      | Some img \<Rightarrow>
          (case resolveDimensions (naturalWidth img) (naturalHeight img) options of
             (targetWidth, targetHeight) \<Rightarrow>
               (\<not> getContext env targetWidth targetHeight \<longrightarrow>
                  processFile_try env item options = Inl (JSError ''Could not get canvas context''))
               \<and> (getContext env targetWidth targetHeight \<longrightarrow>
                    drawImage env img targetWidth targetHeight = None \<longrightarrow>
                    toBlob env img targetWidth targetHeight (format options) (quality options) = Inr None \<longrightarrow>
                    processFile_try env item options = Inl (JSError ''Image encoding failed''))))
   \<and> isProcessing (handleProcessAll env options sched st) = False
   \<and> (list_all (\<lambda>f. status f \<noteq> Processing) (files st) \<longrightarrow>
        list_all (list_all appendsFresh) sched \<longrightarrow>
        list_all (\<lambda>f. status f \<noteq> Processing) (files (handleProcessAll env options sched st)))
   \<and> (distinct (map item_id (files st)) \<longrightarrow>
        length (files (handleProcessAll env options [] st)) = length (files st))
   \<and> (distinct (map item_id (files st)) \<longrightarrow> i < length (files st) \<longrightarrow>
        files st ! i \<in> set (itemsToProcess (files st)) \<longrightarrow>
        (case processFile_try env (files st ! i) options of
           Inl err \<Rightarrow> status (files (handleProcessAll env options [] st) ! i) = Error
                     \<and> error (files (handleProcessAll env options [] st) ! i) = Some (message_or_default err)
         | Inr r \<Rightarrow> status (files (handleProcessAll env options [] st) ! i) = Completed
                     \<and> error (files (handleProcessAll env options [] st) ! i) = None))"
proof (intro conjI)
  show "case processFile_try env item options of
      Inl err \<Rightarrow> processFile env item options = Inr (failure err)
                \<and> p_status (failure err) = Some Error
                \<and> p_error (failure err) = Some (Some (message_or_default err))
                \<and> message_or_default err \<noteq> []
    | Inr r \<Rightarrow> processFile env item options = Inr r \<and> p_status r = Some Completed"
  proof -
    from processFile_try_cases[of env item options]
    consider err where "processFile_try env item options = Inl err"
      | u blob tw th where "processFile_try env item options = Inr (successRecord u options blob tw th)"
      by blast
    then show ?thesis
      by cases (simp_all add: processFile_def failure_fields successRecord_fields message_or_default_nonempty)
  qed
  show "decode env (previewUrl item) = None \<longrightarrow>
        processFile_try env item options = Inl (JSError ''Failed to load image'')"
    by (simp add: processFile_try_def loadImage_def)
  show "case decode env (previewUrl item) of
        None \<Rightarrow> True
      | Some img \<Rightarrow>
          (case resolveDimensions (naturalWidth img) (naturalHeight img) options of
             (targetWidth, targetHeight) \<Rightarrow>
               (\<not> getContext env targetWidth targetHeight \<longrightarrow>
                  processFile_try env item options = Inl (JSError ''Could not get canvas context''))
               \<and> (getContext env targetWidth targetHeight \<longrightarrow>
                    drawImage env img targetWidth targetHeight = None \<longrightarrow>
                    toBlob env img targetWidth targetHeight (format options) (quality options) = Inr None \<longrightarrow>
                    processFile_try env item options = Inl (JSError ''Image encoding failed'')))"
    by (simp add: processFile_try_def loadImage_def split: option.split prod.split)
  show "isProcessing (handleProcessAll env options sched st) = False"
    by (simp add: handleProcessAll_def)
  show "list_all (\<lambda>f. status f \<noteq> Processing) (files st) \<longrightarrow>
        list_all (list_all appendsFresh) sched \<longrightarrow>
        list_all (\<lambda>f. status f \<noteq> Processing) (files (handleProcessAll env options sched st))"
    using settled_processLoop[of "st \<lparr> isProcessing := True \<rparr>" sched env options
        "itemsToProcess (files st)"]
    by (simp add: handleProcessAll_def list_all_iff)
  show "distinct (map item_id (files st)) \<longrightarrow>
        length (files (handleProcessAll env options [] st)) = length (files st)"
    by (simp add: handleProcessAll_quiet)
  show "distinct (map item_id (files st)) \<longrightarrow> i < length (files st) \<longrightarrow>
        files st ! i \<in> set (itemsToProcess (files st)) \<longrightarrow>
        (case processFile_try env (files st ! i) options of
           Inl err \<Rightarrow> status (files (handleProcessAll env options [] st) ! i) = Error
                     \<and> error (files (handleProcessAll env options [] st) ! i) = Some (message_or_default err)
         | Inr r \<Rightarrow> status (files (handleProcessAll env options [] st) ! i) = Completed
                     \<and> error (files (handleProcessAll env options [] st) ! i) = None)"
  proof (intro impI)
    assume d: "distinct (map item_id (files st))" and "i < length (files st)"
      and "files st ! i \<in> set (itemsToProcess (files st))"
    then have "files (handleProcessAll env options [] st) ! i = outcome env options (files st ! i)"
      by (simp add: handleProcessAll_quiet)
    then show "case processFile_try env (files st ! i) options of
           Inl err \<Rightarrow> status (files (handleProcessAll env options [] st) ! i) = Error
                     \<and> error (files (handleProcessAll env options [] st) ! i) = Some (message_or_default err)
         | Inr r \<Rightarrow> status (files (handleProcessAll env options [] st) ! i) = Completed
                     \<and> error (files (handleProcessAll env options [] st) ! i) = None"
      using outcome_status[of env options "files st ! i"] by (auto split: sum.splits)
  qed
qed

theorem failures_contained_witness:
  "processFile ex_env ex_failed ex_options = Inr (failure (JSError ''Failed to load image''))
   \<and> processFile_try ex_env_nocontext ex_idle ex_options = Inl (JSError ''Could not get canvas context'')
   \<and> processFile_try ex_env_null ex_idle ex_options = Inl (JSError ''Image encoding failed'')
   \<and> isProcessing (handleProcessAll ex_env ex_options [[Remove ''c'']] ex_state) = False
   \<and> list_all (\<lambda>f. status f \<noteq> Processing)
        (files (handleProcessAll ex_env ex_options [[Remove ''c'']] ex_state))
   \<and> status (files (handleProcessAll ex_env ex_options [] ex_state) ! 0) = Completed
   \<and> status (files (handleProcessAll ex_env ex_options [] ex_state) ! 2) = Error
   \<and> error (files (handleProcessAll ex_env ex_options [] ex_state) ! 2) = Some ''Failed to load image''"
proof (intro conjI)
  have bad: "processFile_try ex_env ex_failed ex_options = Inl (JSError ''Failed to load image'')"
    by (rule ex_process_bad) (simp add: ex_items)
  have ok: "processFile_try ex_env ex_idle ex_options =
           Inr (successRecord ''blob:out'' ex_options \<lparr> blob_size = 2048, blob_type = ''image/webp'' \<rparr>
                  (fst (resolveDimensions 1000 500 ex_options))
                  (snd (resolveDimensions 1000 500 ex_options)))"
    by (rule ex_process_ok) (simp add: ex_items)
  show "processFile ex_env ex_failed ex_options = Inr (failure (JSError ''Failed to load image''))"
    using failures_contained[of ex_env ex_failed ex_options "[]" ex_state 0]
    by (simp add: bad)
  have dec: "decode ex_env_nocontext (previewUrl ex_idle) = Some \<lparr> naturalWidth = 1000, naturalHeight = 500 \<rparr>"
    by (simp add: ex_env_nocontext_def ex_env_def ex_items)
  have ctx: "\<not> getContext ex_env_nocontext w h" for w h
    by (simp add: ex_env_nocontext_def ex_env_def)
  show "processFile_try ex_env_nocontext ex_idle ex_options = Inl (JSError ''Could not get canvas context'')"
    using failures_contained[of ex_env_nocontext ex_idle ex_options "[]" ex_state 0]
    by (simp add: dec ctx split: prod.splits)
  have dec': "decode ex_env_null (previewUrl ex_idle) = Some \<lparr> naturalWidth = 1000, naturalHeight = 500 \<rparr>"
    by (simp add: ex_env_null_def ex_env_def ex_items)
  have env': "getContext ex_env_null w h" "drawImage ex_env_null img w h = None"
    "toBlob ex_env_null img w h fmt q = Inr None" for img w h fmt q
    by (simp_all add: ex_env_null_def ex_env_def)
  show "processFile_try ex_env_null ex_idle ex_options = Inl (JSError ''Image encoding failed'')"
    using failures_contained[of ex_env_null ex_idle ex_options "[]" ex_state 0]
    by (simp add: dec' env' split: prod.splits)
  show "isProcessing (handleProcessAll ex_env ex_options [[Remove ''c'']] ex_state) = False"
    using failures_contained[of ex_env ex_idle ex_options "[[Remove ''c'']]" ex_state 0]
    by blast
  have settled: "list_all (\<lambda>f. status f \<noteq> Processing) (files ex_state)"
    by (simp add: ex_state_def ex_items)
  have sched: "list_all (list_all appendsFresh) [[Remove ''c'']]" by simp
  from failures_contained[of ex_env ex_idle ex_options "[[Remove ''c'']]" ex_state 0] settled sched
  show "list_all (\<lambda>f. status f \<noteq> Processing)
        (files (handleProcessAll ex_env ex_options [[Remove ''c'']] ex_state))"
    by blast
  have d: "distinct (map item_id (files ex_state))" by (simp add: ex_state_def ex_items)
  have sel: "itemsToProcess (files ex_state) = [ex_idle, ex_failed]"
    by (simp add: itemsToProcess_def ex_state_def ex_items)
  have i0: "0 < length (files ex_state)" "files ex_state ! 0 = ex_idle"
    and i2: "2 < length (files ex_state)" "files ex_state ! 2 = ex_failed"
    by (simp_all add: ex_state_def)
  have m0: "files ex_state ! 0 \<in> set (itemsToProcess (files ex_state))"
    unfolding sel i0(2) by simp
  have m2: "files ex_state ! 2 \<in> set (itemsToProcess (files ex_state))"
    unfolding sel i2(2) by simp
  from failures_contained[of ex_env ex_idle ex_options "[]" ex_state 0] d i0(1) m0
  have "case processFile_try ex_env (files ex_state ! 0) ex_options of
           Inl err \<Rightarrow> status (files (handleProcessAll ex_env ex_options [] ex_state) ! 0) = Error
                     \<and> error (files (handleProcessAll ex_env ex_options [] ex_state) ! 0) = Some (message_or_default err)
         | Inr r \<Rightarrow> status (files (handleProcessAll ex_env ex_options [] ex_state) ! 0) = Completed
                     \<and> error (files (handleProcessAll ex_env ex_options [] ex_state) ! 0) = None"
    by blast
  then show "status (files (handleProcessAll ex_env ex_options [] ex_state) ! 0) = Completed"
    unfolding i0(2) ok by simp
  from failures_contained[of ex_env ex_idle ex_options "[]" ex_state 2] d i2(1) m2
  have e2: "case processFile_try ex_env (files ex_state ! 2) ex_options of
           Inl err \<Rightarrow> status (files (handleProcessAll ex_env ex_options [] ex_state) ! 2) = Error
                     \<and> error (files (handleProcessAll ex_env ex_options [] ex_state) ! 2) = Some (message_or_default err)
         | Inr r \<Rightarrow> status (files (handleProcessAll ex_env ex_options [] ex_state) ! 2) = Completed
                     \<and> error (files (handleProcessAll ex_env ex_options [] ex_state) ! 2) = None"
    by blast
  from e2 show "status (files (handleProcessAll ex_env ex_options [] ex_state) ! 2) = Error"
    unfolding i2(2) bad by simp
  from e2 show "error (files (handleProcessAll ex_env ex_options [] ex_state) ! 2) = Some ''Failed to load image''"
    unfolding i2(2) bad by simp
qed

section \<open>Removal while an item is being processed\<close>

text \<open>
  Claim C8. If the user removes an item while the controller awaits its result, and nothing
  appends an item with that id afterwards, the merge step drops the result: the collection
  stays what the user actions made of it, it has no entry with the removed id, and the
  object URL of the result, if there is one, is revoked.
\<close>

theorem removed_item_result_discarded:
  assumes "acts = before @ Remove (item_id item) # after"
    and "list_all (\<lambda>a. \<not> appendsId (item_id item) a) after"
  shows "\<not> list_ex (\<lambda>f. item_id f = item_id item) (files (processOne env options item acts st))
       \<and> files (processOne env options item acts st) = files (foldl userAction (markProcessing item st) acts)
       \<and> revoked (processOne env options item acts st) =
           revoked (foldl userAction (markProcessing item st) acts)
             @ revokeIfSet (get_processedUrl (awaitProcessFile env item options))"
proof -
  let ?st2 = "foldl userAction (markProcessing item st) acts"
  from assms(2) have na: "\<forall>a \<in> set after. \<not> appendsId (item_id item) a"
    by (simp add: list_all_iff)
  have "?st2 = foldl userAction
          (handleRemoveFile (item_id item) (foldl userAction (markProcessing item st) before)) after"
    by (simp add: assms(1))
  then have absent: "\<not> list_ex (\<lambda>f. item_id f = item_id item) (files ?st2)"
    using absent_userActions[OF absent_after_remove na] by simp
  have "processOne env options item acts st = mergeResult item (awaitProcessFile env item options) ?st2"
    by (simp add: processOne_def Let_def)
  with absent show ?thesis
    by (simp add: mergeResult_absent)
qed

theorem removed_item_result_discarded_witness:
  "\<not> list_ex (\<lambda>f. item_id f = ''a'') (files (processOne ex_env ex_options ex_idle [Remove ''a''] ex_state))
   \<and> ''blob:out'' \<in> set (revoked (processOne ex_env ex_options ex_idle [Remove ''a''] ex_state))"
proof -
  have a: "[Remove ''a''] = [] @ Remove (item_id ex_idle) # []" by (simp add: ex_items)
  have b: "list_all (\<lambda>a. \<not> appendsId (item_id ex_idle) a) []" by simp
  have "processFile_try ex_env ex_idle ex_options =
           Inr (successRecord ''blob:out'' ex_options \<lparr> blob_size = 2048, blob_type = ''image/webp'' \<rparr>
                  (fst (resolveDimensions 1000 500 ex_options))
                  (snd (resolveDimensions 1000 500 ex_options)))"
    by (rule ex_process_ok) (simp add: ex_items)
  then have u: "revokeIfSet (get_processedUrl (awaitProcessFile ex_env ex_idle ex_options)) = [''blob:out'']"
    by (simp add: awaitProcessFile_eq get_processedUrl_def successRecord_fields revokeIfSet_def)
  note discarded = removed_item_result_discarded[OF a b, of ex_env ex_options ex_state]
  from discarded
  have c1: "\<not> list_ex (\<lambda>f. item_id f = item_id ex_idle)
              (files (processOne ex_env ex_options ex_idle [Remove ''a''] ex_state))"
    by blast
  from discarded
  have c3: "revoked (processOne ex_env ex_options ex_idle [Remove ''a''] ex_state) =
           revoked (foldl userAction (markProcessing ex_idle ex_state) [Remove ''a''])
             @ revokeIfSet (get_processedUrl (awaitProcessFile ex_env ex_idle ex_options))"
    by blast
  from c1 have "\<not> list_ex (\<lambda>f. item_id f = ''a'')
              (files (processOne ex_env ex_options ex_idle [Remove ''a''] ex_state))"
    by (simp add: ex_items)
  moreover have "''blob:out'' \<in> set (revoked (processOne ex_env ex_options ex_idle [Remove ''a''] ex_state))"
    unfolding c3 u by simp
  ultimately show ?thesis ..
qed

section \<open>Failed items\<close>

text \<open>
  Claim C9. When \<^verbatim>\<open>processFile\<close> returns a record with status \<^verbatim>\<open>error\<close>, merging it changes in
  no item the id, the file, the preview URL, the original size, width or height; the item it
  is merged into has status \<^verbatim>\<open>error\<close> with an error set, and is among the items that the next
  run selects.
\<close>

theorem failure_keeps_originals:
  assumes "processFile env item options = Inr r" and "p_status r = Some Error"
    and "i < length (files st)"
  shows "length (files (mergeResult item r st)) = length (files st)
       \<and> item_id (files (mergeResult item r st) ! i) = item_id (files st ! i)
       \<and> item_file (files (mergeResult item r st) ! i) = item_file (files st ! i)
       \<and> previewUrl (files (mergeResult item r st) ! i) = previewUrl (files st ! i)
       \<and> originalSize (files (mergeResult item r st) ! i) = originalSize (files st ! i)
       \<and> originalWidth (files (mergeResult item r st) ! i) = originalWidth (files st ! i)
       \<and> originalHeight (files (mergeResult item r st) ! i) = originalHeight (files st ! i)
       \<and> (item_id (files st ! i) = item_id item \<longrightarrow>
            status (files (mergeResult item r st) ! i) = Error
            \<and> error (files (mergeResult item r st) ! i) \<noteq> None
            \<and> files (mergeResult item r st) ! i \<in> set (itemsToProcess (files (mergeResult item r st))))"
proof -
  from processFile_error_is_failure[OF assms(1,2)] obtain err where r: "r = failure err" ..
  let ?fs' = "files (mergeResult item r st)"
  have len: "length ?fs' = length (files st)" by (simp add: files_mergeResult)
  have nth: "?fs' ! i = (if item_id (files st ! i) = item_id item
      then (files st ! i) \<lparr> status := Error, error := Some (message_or_default err) \<rparr> else files st ! i)"
    using assms(3) by (simp add: files_mergeResult r spread_failure)
  have mem: "?fs' ! i \<in> set ?fs'" using assms(3) len by simp
  have sel: "item_id (files st ! i) = item_id item \<longrightarrow> ?fs' ! i \<in> set (itemsToProcess ?fs')"
  proof
    assume "item_id (files st ! i) = item_id item"
    with nth have "status (?fs' ! i) = Error" by simp
    with mem show "?fs' ! i \<in> set (itemsToProcess ?fs')" by (rule error_item_selected)
  qed
  have rest: "length ?fs' = length (files st)
       \<and> item_id (?fs' ! i) = item_id (files st ! i)
       \<and> item_file (?fs' ! i) = item_file (files st ! i)
       \<and> previewUrl (?fs' ! i) = previewUrl (files st ! i)
       \<and> originalSize (?fs' ! i) = originalSize (files st ! i)
       \<and> originalWidth (?fs' ! i) = originalWidth (files st ! i)
       \<and> originalHeight (?fs' ! i) = originalHeight (files st ! i)
       \<and> (item_id (files st ! i) = item_id item \<longrightarrow>
            status (?fs' ! i) = Error \<and> error (?fs' ! i) \<noteq> None)"
    using len nth by simp
  from rest sel show ?thesis by blast
qed

theorem failure_keeps_originals_witness:
  "processFile ex_env ex_failed ex_options = Inr (failure (JSError ''Failed to load image''))
   \<and> item_file (files (mergeResult ex_failed (failure (JSError ''Failed to load image'')) ex_state) ! 2) = ex_file
   \<and> previewUrl (files (mergeResult ex_failed (failure (JSError ''Failed to load image'')) ex_state) ! 2) = ''blob:bad''
   \<and> status (files (mergeResult ex_failed (failure (JSError ''Failed to load image'')) ex_state) ! 2) = Error
   \<and> files (mergeResult ex_failed (failure (JSError ''Failed to load image'')) ex_state) ! 2
        \<in> set (itemsToProcess (files (mergeResult ex_failed (failure (JSError ''Failed to load image'')) ex_state)))"
proof -
  have "processFile_try ex_env ex_failed ex_options = Inl (JSError ''Failed to load image'')"
    by (rule ex_process_bad) (simp add: ex_items)
  then have p: "processFile ex_env ex_failed ex_options = Inr (failure (JSError ''Failed to load image''))"
    by (simp add: processFile_def)
  have s: "p_status (failure (JSError ''Failed to load image'')) = Some Error"
    by (simp add: failure_fields)
  have i: "2 < length (files ex_state)" by (simp add: ex_state_def)
  have e: "files ex_state ! 2 = ex_failed" by (simp add: ex_state_def)
  from failure_keeps_originals[OF p s i] p show ?thesis
    unfolding e by (simp add: ex_failed_def)
qed

section \<open>What the target dimensions depend on\<close>

text \<open>
  Claim C10. The width and height that an item records at ingestion play no part in
  \<^verbatim>\<open>processFile\<close>: changing them changes nothing in its result. Two items whose images load
  with the same natural width and height get, under the same options, the same processed
  width and height, namely the dimensions resolved from that natural size.
\<close>

theorem dimensions_ignore_stored_size:
  "processFile env (item \<lparr> originalWidth := w, originalHeight := h \<rparr>) options = processFile env item options
   \<and> (decode env (previewUrl item1) = Some img1 \<longrightarrow> decode env (previewUrl item2) = Some img2 \<longrightarrow>
      naturalWidth img1 = naturalWidth img2 \<longrightarrow> naturalHeight img1 = naturalHeight img2 \<longrightarrow>
      processFile env item1 options = Inr r1 \<longrightarrow> processFile env item2 options = Inr r2 \<longrightarrow>
      p_status r1 = Some Completed \<longrightarrow> p_status r2 = Some Completed \<longrightarrow>
      p_processedWidth r1 = Some (Some (fst (resolveDimensions (naturalWidth img1) (naturalHeight img1) options)))
      \<and> p_processedHeight r1 = Some (Some (snd (resolveDimensions (naturalWidth img1) (naturalHeight img1) options)))
      \<and> p_processedWidth r2 = p_processedWidth r1
      \<and> p_processedHeight r2 = p_processedHeight r1)"
proof (intro conjI impI)
  show "processFile env (item \<lparr> originalWidth := w, originalHeight := h \<rparr>) options = processFile env item options"
    by (simp add: processFile_def processFile_try_def)
next
  assume a: "decode env (previewUrl item1) = Some img1" "decode env (previewUrl item2) = Some img2"
    "naturalWidth img1 = naturalWidth img2" "naturalHeight img1 = naturalHeight img2"
    "processFile env item1 options = Inr r1" "processFile env item2 options = Inr r2"
    "p_status r1 = Some Completed" "p_status r2 = Some Completed"
  let ?w = "fst (resolveDimensions (naturalWidth img1) (naturalHeight img1) options)"
  let ?h = "snd (resolveDimensions (naturalWidth img1) (naturalHeight img1) options)"
  have success: "\<exists>u blob. r = successRecord u options blob
          (fst (resolveDimensions (naturalWidth img) (naturalHeight img) options))
          (snd (resolveDimensions (naturalWidth img) (naturalHeight img) options))"
    if "decode env (previewUrl it) = Some img" "processFile env it options = Inr r"
      "p_status r = Some Completed" for it img r
  proof -
    from processFile_try_cases[of env it options]
    consider err where "processFile_try env it options = Inl err"
      | img' blob where "decode env (previewUrl it) = Some img'"
          "processFile_try env it options =
             Inr (successRecord (createObjectURL env blob) options blob
               (fst (resolveDimensions (naturalWidth img') (naturalHeight img') options))
               (snd (resolveDimensions (naturalWidth img') (naturalHeight img') options)))"
      by blast
    then show ?thesis
    proof cases
      case 1
      with that(2) have "r = failure err" by (simp add: processFile_def)
      with that(3) show ?thesis by (simp add: failure_fields)
    next
      case 2
      with that(1) have "img' = img" by simp
      with 2(2) that(2) show ?thesis by (simp add: processFile_def) blast
    qed
  qed
  from success[OF a(1,5,7)] have r1: "\<exists>u blob. r1 = successRecord u options blob ?w ?h" .
  from success[OF a(2,6,8)] have r2: "\<exists>u blob. r2 = successRecord u options blob ?w ?h"
    by (simp add: a(3,4))
  from r1 show "p_processedWidth r1 = Some (Some ?w)" by (auto simp: successRecord_fields)
  from r1 show "p_processedHeight r1 = Some (Some ?h)" by (auto simp: successRecord_fields)
  from r1 r2 show "p_processedWidth r2 = p_processedWidth r1" by (auto simp: successRecord_fields)
  from r1 r2 show "p_processedHeight r2 = p_processedHeight r1" by (auto simp: successRecord_fields)
qed

theorem dimensions_ignore_stored_size_witness:
  "originalWidth ex_idle = 1000 \<and> originalWidth ex_unprobed = 0
   \<and> processFile ex_env (ex_idle \<lparr> originalWidth := 0, originalHeight := 0 \<rparr>) ex_options
       = processFile ex_env ex_idle ex_options
   \<and> (case (processFile ex_env ex_idle ex_options, processFile ex_env ex_unprobed ex_options) of
        (Inr r1, Inr r2) \<Rightarrow>
           p_processedWidth r1 = Some (Some (fst (resolveDimensions 1000 500 ex_options)))
           \<and> p_processedWidth r2 = p_processedWidth r1
           \<and> p_processedHeight r2 = p_processedHeight r1
      | _ \<Rightarrow> False)"
proof -
  let ?img = "\<lparr> naturalWidth = 1000, naturalHeight = 500 \<rparr>"
  let ?r = "successRecord ''blob:out'' ex_options \<lparr> blob_size = 2048, blob_type = ''image/webp'' \<rparr>
                  (fst (resolveDimensions 1000 500 ex_options))
                  (snd (resolveDimensions 1000 500 ex_options))"
  have u: "previewUrl ex_unprobed = ''blob:d''" by (simp add: ex_unprobed_def)
  have d1: "decode ex_env (previewUrl ex_idle) = Some ?img" by (simp add: ex_env_def ex_items)
  have d2: "decode ex_env (previewUrl ex_unprobed) = Some ?img" by (simp add: ex_env_def u)
  have "processFile_try ex_env ex_idle ex_options = Inr ?r"
    by (rule ex_process_ok) (simp add: ex_items)
  then have p1: "processFile ex_env ex_idle ex_options = Inr ?r" by (simp add: processFile_def)
  have "processFile_try ex_env ex_unprobed ex_options = Inr ?r"
    by (rule ex_process_ok) (simp add: u)
  then have p2: "processFile ex_env ex_unprobed ex_options = Inr ?r" by (simp add: processFile_def)
  have s: "p_status ?r = Some Completed" by (simp add: successRecord_fields)
  have o: "originalWidth ex_idle = 1000" "originalWidth ex_unprobed = 0"
    by (simp_all add: ex_unprobed_def ex_idle_def newItem_def ex_env_def)
  from dimensions_ignore_stored_size[where env = ex_env and item = ex_idle and w = 0 and h = 0
      and options = ex_options and ?item1.0 = ex_idle and ?img1.0 = ?img
      and ?item2.0 = ex_unprobed and ?img2.0 = ?img and ?r1.0 = ?r and ?r2.0 = ?r]
    d1 d2 p1 p2 s o
  show ?thesis by simp
qed

end
